theory Spec2Isabelle
  imports Complex_Main "HOL-Library.Sublist"
begin

section \<open>Constants and type aliases (utils.py)\<close>

text \<open>
  Python's \<open>Time = float\<close> is idealised as \<open>real\<close>: every property below is a statement
  about exact arithmetic on times and probabilities.  Stop identifiers and transport modes
  are Python strings.  A trip identifier is any Python value; the program uses strings for
  scheduled trips and the integers \<open>-1\<close> and \<open>-2\<close> as reserved flags.
\<close>

type_synonym Time = real
type_synonym ID = string
type_synonym Name = string

datatype trip_id = TripStr string | TripInt int

definition FOOT_TTYPE :: string where
  "FOOT_TTYPE = ''Foot''"

definition FOOT_TRIP_ID :: trip_id where
  "FOOT_TRIP_ID = TripInt (- 1)"

definition INIT_TTYPE :: string where
  "INIT_TTYPE = ''Init''"

definition INIT_TRIP_ID :: trip_id where
  "INIT_TRIP_ID = TripInt (- 2)"

text \<open>
  The parameters handed to \<open>scipy.stats.gamma\<close>: shape, location and scale.  The
  distribution function itself belongs to SciPy; every function that evaluates it takes
  it as the parameter \<open>cdf\<close>.
\<close>

type_synonym gamma_params = "real \<times> real \<times> real"

text \<open>
  An edge-attribute dictionary.  The dictionaries stored in the graph carry all six keys;
  the dictionary \<open>INIT_PROPS\<close> built by \<open>TimeDistance.__init__\<close> has no key
  \<open>travel_time\<close>, hence the option.
\<close>

record EdgeProps =
  gamma :: "gamma_params option"
  arr_time :: Time
  dep_time :: Time
  ttype :: string
  trip_id :: trip_id
  travel_time :: "Time option"

text \<open>
  The exceptions the program can raise.  A \<open>KeyError\<close> carries the key, as in Python,
  and before it the name of the dictionary that was subscripted.
\<close>

datatype error =
    KeyError string string
  | UnboundLocalError
  | AssertionError
  | IndexError
  | NetworkXError

section \<open>Delay model (delay.py)\<close>

definition EXTRA_TRANSFER_TIME :: "(string \<times> Time) list" where
  "EXTRA_TRANSFER_TIME =
     [(''Bus'', 20),
      (''Foot'', 20),
      (''Tram'', 30),
      (''S-Bahn'', 100),
      (''Extrazug'', 100),
      (''InterRegio'', 120),
      (''Eurocity'', 120),
      (''RegioExpress'', 120),
      (''ICE'', 120),
      (''Eurostar'', 120),
      (''Intercity'', 120)]"

text \<open>\<open>Delay.__compute_delay\<close>: the subscript on the table raises \<open>KeyError\<close>.\<close>

definition compute_delay :: "Time \<Rightarrow> Time \<Rightarrow> string \<Rightarrow> trip_id \<Rightarrow> trip_id \<Rightarrow> error + Time" where
  "compute_delay arrival_time next_departure_time tt previous_route_id next_route_id =
     (let time_to_make_connection = next_departure_time - arrival_time
      in if previous_route_id \<noteq> next_route_id
         then (case map_of EXTRA_TRANSFER_TIME tt of
                 None \<Rightarrow> Inl (KeyError ''EXTRA_TRANSFER_TIME'' tt)
               | Some extra \<Rightarrow> Inr (time_to_make_connection - extra))
         else Inr time_to_make_connection)"

text \<open>\<open>Delay.__connection_probability\<close>, the private wrapper around the distribution.\<close>

definition connection_probability_wrapper ::
  "(gamma_params \<Rightarrow> real \<Rightarrow> real) \<Rightarrow> Time \<Rightarrow> gamma_params option \<Rightarrow> string \<Rightarrow>
   trip_id \<Rightarrow> trip_id \<Rightarrow> real" where
  "connection_probability_wrapper cdf delay gamma_params tt previous_route_id next_route_id =
     (if tt = ''Foot'' \<or> previous_route_id = next_route_id \<or> gamma_params = None
      then 1
      else cdf (the gamma_params) delay)"

text \<open>\<open>Delay.connection_probability\<close>: the delay is computed first, then the probability.\<close>

definition connection_probability ::
  "(gamma_params \<Rightarrow> real \<Rightarrow> real) \<Rightarrow> EdgeProps \<Rightarrow> EdgeProps \<Rightarrow> error + real" where
  "connection_probability cdf prev_props curr_props =
     (case compute_delay (arr_time prev_props) (dep_time curr_props) (ttype prev_props)
             (trip_id prev_props) (trip_id curr_props) of
        Inl e \<Rightarrow> Inl e
      | Inr d \<Rightarrow>
          Inr (connection_probability_wrapper cdf d (gamma prev_props) (ttype curr_props)
                 (trip_id prev_props) (trip_id curr_props)))"

text \<open>
  The Gamma distribution function for shape 1 (the exponential distribution shifted by
  \<open>loc\<close>), which is what \<open>gamma(1, loc, scale).cdf\<close> computes; other shapes are mapped to
  the same curve.  It serves as a concrete distribution in the examples.
\<close>

definition shape1_cdf :: "gamma_params \<Rightarrow> real \<Rightarrow> real" where
  "shape1_cdf g x =
     (case g of (shape, loc, scale) \<Rightarrow>
        if x \<le> loc then 0 else 1 - exp (- ((x - loc) / scale)))"

section \<open>Objects and references\<close>

text \<open>
  Attribute dictionaries and graphs are mutable Python objects that the program shares by
  reference.  The store holds them in two arrays; a reference is an index, and creating an
  object appends it.  \<open>props.copy()\<close> therefore yields a new index, and an item
  assignment \<open>props[k] = v\<close> updates the array at the index \<open>props\<close> refers to.

  A graph is a \<open>networkx.MultiDiGraph\<close>: its nodes, and its parallel edges as
  (source, target, key, reference to the attribute dictionary), listed in the order in
  which \<open>out_edges\<close> and \<open>graph[u][v]\<close> iterate over them.
\<close>

record Graph =
  nodes :: "ID list"
  edges :: "(ID \<times> ID \<times> nat \<times> nat) list"

record store =
  dicts :: "EdgeProps list"
  graphs :: "Graph list"

definition new_dict :: "store \<Rightarrow> EdgeProps \<Rightarrow> store \<times> nat" where
  "new_dict s d = (s\<lparr>dicts := dicts s @ [d]\<rparr>, length (dicts s))"

definition set_item :: "store \<Rightarrow> nat \<Rightarrow> (EdgeProps \<Rightarrow> EdgeProps) \<Rightarrow> store" where
  "set_item s p f = s\<lparr>dicts := (dicts s)[p := f (dicts s ! p)]\<rparr>"

definition new_graph :: "store \<Rightarrow> Graph \<Rightarrow> store \<times> nat" where
  "new_graph s gr = (s\<lparr>graphs := graphs s @ [gr]\<rparr>, length (graphs s))"

text \<open>\<open>G.out_edges(stop, data=True)\<close>: triples (source, target, attribute dictionary).\<close>

definition out_edges :: "Graph \<Rightarrow> ID \<Rightarrow> (ID \<times> ID \<times> nat) list" where
  "out_edges gr stop =
     map (\<lambda>(u, v, k, p). (u, v, p)) (filter (\<lambda>(u, v, k, p). u = stop) (edges gr))"

text \<open>
  \<open>G.copy()\<close>: a new graph object with the same nodes and, for every edge in order, a
  fresh copy of its attribute dictionary.
\<close>

fun copy_edges ::
  "store \<Rightarrow> (ID \<times> ID \<times> nat \<times> nat) list \<Rightarrow> store \<times> (ID \<times> ID \<times> nat \<times> nat) list" where
  "copy_edges s [] = (s, [])"
| "copy_edges s ((u, v, k, p) # es) =
     (case new_dict s (dicts s ! p) of (s1, q) \<Rightarrow>
        (case copy_edges s1 es of (s2, es') \<Rightarrow> (s2, (u, v, k, q) # es')))"

definition copy_graph :: "store \<Rightarrow> nat \<Rightarrow> store \<times> nat" where
  "copy_graph s g =
     (case copy_edges s (edges (graphs s ! g)) of (s1, es) \<Rightarrow>
        new_graph s1 \<lparr>nodes = nodes (graphs s ! g), edges = es\<rparr>)"

text \<open>
  \<open>graph.remove_edge(u, v, key)\<close>: without any edge from \<open>u\<close> to \<open>v\<close>, or without the
  given key among them, networkx raises; with \<open>key=None\<close> it removes the edge inserted
  last.
\<close>

fun remove_last :: "('a \<Rightarrow> bool) \<Rightarrow> 'a list \<Rightarrow> 'a list" where
  "remove_last P [] = []"
| "remove_last P (x # xs) =
     (if P x \<and> \<not> list_ex P xs then xs else x # remove_last P xs)"

definition remove_edge :: "store \<Rightarrow> nat \<Rightarrow> ID \<Rightarrow> ID \<Rightarrow> nat option \<Rightarrow> error + store" where
  "remove_edge s g u v key =
     (let gr = graphs s ! g;
          between = (\<lambda>(u', v', k, p). u' = u \<and> v' = v)
      in if \<not> list_ex between (edges gr) then Inl NetworkXError
         else (case key of
                 None \<Rightarrow>
                   Inr (s\<lparr>graphs := (graphs s)[g := gr\<lparr>edges := remove_last between (edges gr)\<rparr>]\<rparr>)
               | Some k0 \<Rightarrow>
                   if \<not> list_ex (\<lambda>(u', v', k, p). u' = u \<and> v' = v \<and> k = k0) (edges gr)
                   then Inl NetworkXError
                   else Inr (s\<lparr>graphs := (graphs s)[g := gr\<lparr>edges :=
                          filter (\<lambda>(u', v', k, p). \<not> (u' = u \<and> v' = v \<and> k = k0)) (edges gr)\<rparr>]\<rparr>)))"

section \<open>Labelled distance (timedistance.py)\<close>

text \<open>
  A \<open>TimeDistance\<close> object; \<open>prev_props\<close> is a reference to an attribute dictionary.
  A label is only changed (by \<open>updated\<close>) before it is stored or queued, so labels are
  kept as values.
\<close>

record TimeDistance =
  first :: bool
  cum_time :: Time
  prev_props :: nat

definition INIT_PROPS :: "Time \<Rightarrow> EdgeProps" where
  "INIT_PROPS time =
     \<lparr>gamma = None, arr_time = time, dep_time = time, ttype = INIT_TTYPE,
      trip_id = INIT_TRIP_ID, travel_time = None\<rparr>"

text \<open>\<open>TimeDistance.__init__(first, cum_time, prev_props, time)\<close>.\<close>

definition TimeDistance_init ::
  "store \<Rightarrow> bool \<Rightarrow> Time \<Rightarrow> nat option \<Rightarrow> Time \<Rightarrow> store \<times> TimeDistance" where
  "TimeDistance_init s fst0 cum pp time =
     (case pp of
        None \<Rightarrow>
          (case new_dict s (INIT_PROPS time) of (s1, q) \<Rightarrow>
             (s1, \<lparr>first = fst0, cum_time = cum, prev_props = q\<rparr>))
      | Some p \<Rightarrow> (s, \<lparr>first = fst0, cum_time = cum, prev_props = p\<rparr>))"

definition updated :: "TimeDistance \<Rightarrow> TimeDistance" where
  "updated self = self\<lparr>first := False\<rparr>"

text \<open>Python floats with \<open>inf\<close>: the cost of a label and what is computed from it.\<close>

datatype ext = MInf | Fin real | PInf

definition cost :: "TimeDistance \<Rightarrow> ext" where
  "cost self = (if first self then PInf else Fin (cum_time self))"

fun ext_less :: "ext \<Rightarrow> ext \<Rightarrow> bool" where
  "ext_less (Fin a) (Fin b) = (a < b)"
| "ext_less MInf MInf = False"
| "ext_less MInf _ = True"
| "ext_less PInf _ = False"
| "ext_less (Fin a) PInf = True"
| "ext_less (Fin a) MInf = False"

text \<open>\<open>TimeDistance.__lt__\<close>.\<close>

definition lt :: "TimeDistance \<Rightarrow> TimeDistance \<Rightarrow> bool" where
  "lt self other = ext_less (cost self) (cost other)"

text \<open>
  \<open>TimeDistance.__add__\<close>.  For a walking edge the dictionary is copied and the two
  times are assigned on the copy, each assignment reading \<open>self.prev_props\<close> through the
  store as it then is.
\<close>

definition TimeDistance_add :: "store \<Rightarrow> TimeDistance \<Rightarrow> nat \<Rightarrow> error + store \<times> TimeDistance" where
  "TimeDistance_add s self props =
     (case (if ttype (dicts s ! props) = ''Foot''
            then (case new_dict s (dicts s ! props) of (s1, q) \<Rightarrow>
                    (case travel_time (dicts s1 ! q) of
                       None \<Rightarrow> Inl (KeyError ''props'' ''travel_time'')
                     | Some tt \<Rightarrow>
                         let s2 = set_item s1 q
                                    (\<lambda>d. d\<lparr>dep_time := dep_time (dicts s1 ! prev_props self) - tt\<rparr>);
                             s3 = set_item s2 q
                                    (\<lambda>d. d\<lparr>arr_time := dep_time (dicts s2 ! prev_props self)\<rparr>)
                         in Inr (s3, q)))
            else Inr (s, props)) of
        Inl e \<Rightarrow> Inl e
      | Inr (s', props') \<Rightarrow>
          (case travel_time (dicts s' ! props') of
             None \<Rightarrow> Inl (KeyError ''props'' ''travel_time'')
           | Some tt \<Rightarrow>
               Inr (TimeDistance_init s' (first self)
                      (cum_time self + dep_time (dicts s' ! prev_props self)
                         - arr_time (dicts s' ! props') + tt)
                      (Some props') 0)))"

definition previous_dep_time :: "store \<Rightarrow> TimeDistance \<Rightarrow> Time" where
  "previous_dep_time s self = dep_time (dicts s ! prev_props self)"

section \<open>Routes (route.py)\<close>

text \<open>
  A \<open>Route\<close> object: the graph it refers to, the stops and their labels.  A route is
  filled by \<open>append\<close> while it is built and read afterwards, so it is kept as a value.
\<close>

record Route =
  route_G :: nat
  connections :: "ID list"
  distances :: "TimeDistance list"

definition Route_init :: "nat \<Rightarrow> Route" where
  "Route_init g = \<lparr>route_G = g, connections = [], distances = []\<rparr>"

definition Route_append :: "Route \<Rightarrow> ID \<Rightarrow> TimeDistance \<Rightarrow> Route" where
  "Route_append self node label =
     self\<lparr>connections := connections self @ [node], distances := distances self @ [label]\<rparr>"

text \<open>
  The loop of \<open>Route.success_proba\<close> over \<open>enumerate(zip(connections, connections[1:]))\<close>.
  The accumulator is \<open>(proba, least_proba, least_proba_edge)\<close>; the last variable is
  unbound until its first assignment.
\<close>

fun success_proba_loop ::
  "(gamma_params \<Rightarrow> real \<Rightarrow> real) \<Rightarrow> store \<Rightarrow> TimeDistance list \<Rightarrow> (nat \<times> ID \<times> ID) list \<Rightarrow>
   real \<times> real \<times> (ID \<times> ID \<times> nat) option \<Rightarrow> error + real \<times> real \<times> (ID \<times> ID \<times> nat) option" where
  "success_proba_loop cdf s ds [] acc = Inr acc"
| "success_proba_loop cdf s ds ((i, dep_stop, arr_stop) # rest) (proba, least_proba, least_proba_edge) =
     (if \<not> i < length ds \<or> \<not> i + 1 < length ds then Inl IndexError
      else (case connection_probability cdf (dicts s ! prev_props (ds ! i))
                   (dicts s ! prev_props (ds ! (i + 1))) of
              Inl e \<Rightarrow> Inl e
            | Inr next_proba \<Rightarrow>
                success_proba_loop cdf s ds rest
                  (proba * next_proba,
                   if next_proba \<le> least_proba
                   then (next_proba, Some (arr_stop, dep_stop, prev_props (ds ! i)))
                   else (least_proba, least_proba_edge))))"

definition success_proba ::
  "(gamma_params \<Rightarrow> real \<Rightarrow> real) \<Rightarrow> store \<Rightarrow> Route \<Rightarrow> error + real \<times> (ID \<times> ID \<times> nat)" where
  "success_proba cdf s self =
     (if length (connections self) = 0 then Inl AssertionError
      else (case success_proba_loop cdf s (distances self)
                   (zip [0 ..< length (connections self)]
                      (zip (connections self) (tl (connections self))))
                   (1, 1, None) of
              Inl e \<Rightarrow> Inl e
            | Inr (proba, least_proba, least_proba_edge) \<Rightarrow>
                (case least_proba_edge of
                   None \<Rightarrow> Inl UnboundLocalError
                 | Some edge \<Rightarrow> Inr (proba, edge))))"

definition Route_dep_time :: "store \<Rightarrow> Route \<Rightarrow> error + Time" where
  "Route_dep_time s self =
     (if length (connections self) = 0 then Inl AssertionError
      else (case distances self of
              [] \<Rightarrow> Inl IndexError
            | d # _ \<Rightarrow> Inr (dep_time (dicts s ! prev_props d))))"

definition Route_travel_time :: "Route \<Rightarrow> error + Time" where
  "Route_travel_time self =
     (if length (connections self) = 0 then Inl AssertionError
      else (case distances self of
              [] \<Rightarrow> Inl IndexError
            | d # _ \<Rightarrow> Inr (cum_time d)))"

definition Route_arr_time :: "store \<Rightarrow> Route \<Rightarrow> error + Time" where
  "Route_arr_time s self =
     (if length (connections self) = 0 then Inl AssertionError
      else (case Route_travel_time self of
              Inl e \<Rightarrow> Inl e
            | Inr t \<Rightarrow>
                (case distances self of
                   [] \<Rightarrow> Inl IndexError
                 | d # _ \<Rightarrow> Inr (t + dep_time (dicts s ! prev_props d)))))"

section \<open>Stochastic backward search (routing.py)\<close>

definition MAX_WAITING_TIME :: Time where
  "MAX_WAITING_TIME = 45 * 60"

text \<open>\<open>arr_time - distances[start]()\<close> and the comparison against it, on floats with \<open>inf\<close>.\<close>

fun ext_minus :: "real \<Rightarrow> ext \<Rightarrow> ext" where
  "ext_minus a (Fin c) = Fin (a - c)"
| "ext_minus a PInf = MInf"
| "ext_minus a MInf = PInf"

fun ge_ext :: "real \<Rightarrow> ext \<Rightarrow> bool" where
  "ge_ext x (Fin t) = (x \<ge> t)"
| "ge_ext x MInf = True"
| "ge_ext x PInf = False"

text \<open>
  The local variables of \<open>stochastic_dijkstra\<close> that its loop changes, with the store.
  The queue is \<open>queue.PriorityQueue\<close> holding pairs (label, stop): \<open>put\<close> adds an entry,
  \<open>get\<close> removes an entry whose label is least for \<open>__lt__\<close> (here the one put first among
  the least; no property below depends on that choice).
\<close>

record search_state =
  st_store :: store
  st_distances :: "ID \<rightharpoonup> TimeDistance"
  st_prev :: "ID \<rightharpoonup> ID"
  st_visited :: "ID set"
  st_queue :: "(TimeDistance \<times> ID) list"

fun least_entry :: "TimeDistance \<times> ID \<Rightarrow> (TimeDistance \<times> ID) list \<Rightarrow> TimeDistance \<times> ID" where
  "least_entry m [] = m"
| "least_entry m (x # xs) = least_entry (if lt (fst x) (fst m) then x else m) xs"

definition queue_get :: "(TimeDistance \<times> ID) list \<Rightarrow> (TimeDistance \<times> ID) \<times> (TimeDistance \<times> ID) list" where
  "queue_get q = (let m = least_entry (hd q) (tl q) in (m, remove1 m q))"

text \<open>
  \<open>time_filter\<close>, the predicate of \<open>neighbours\<close>.  Its free variables \<open>prev_props\<close>,
  \<open>previous_dep_time\<close> and \<open>current_best_dep_time\<close> (here \<open>pp\<close>, \<open>pdt\<close>, \<open>cbdt\<close>) are
  fixed when \<open>neighbours\<close> is called; \<open>and\<close>, \<open>or\<close> are evaluated left to right and stop early.
\<close>

definition time_filter ::
  "(gamma_params \<Rightarrow> real \<Rightarrow> real) \<Rightarrow> store \<Rightarrow> nat \<Rightarrow> Time \<Rightarrow> ext \<Rightarrow> real \<Rightarrow> ID \<times> ID \<times> nat \<Rightarrow>
   error + bool" where
  "time_filter cdf s pp pdt cbdt threshold e =
     (case e of (u, v, props) \<Rightarrow>
        let isFoot = (ttype (dicts s ! props) = ''Foot'');
            consecutiveFoot = (isFoot \<and> ttype (dicts s ! pp) = ''Foot'');
            inTimeRange =
              (pdt \<ge> arr_time (dicts s ! props)
               \<and> arr_time (dicts s ! props) \<ge> pdt - MAX_WAITING_TIME
               \<and> ge_ext (dep_time (dicts s ! props)) cbdt)
        in if \<not> (isFoot \<or> inTimeRange) then Inr False
           else if consecutiveFoot then Inr False
           else (case connection_probability cdf (dicts s ! props) (dicts s ! pp) of
                   Inl x \<Rightarrow> Inl x
                 | Inr p \<Rightarrow> Inr (p \<ge> threshold)))"

text \<open>
  One pass of the \<open>for\<close> loop of the search.  \<open>filter\<close> is lazy in Python 3, so the
  predicate is applied to an edge just before that edge is relaxed.
\<close>

definition relax ::
  "(gamma_params \<Rightarrow> real \<Rightarrow> real) \<Rightarrow> ID \<Rightarrow> nat \<Rightarrow> Time \<Rightarrow> ext \<Rightarrow> real \<Rightarrow> search_state \<Rightarrow>
   ID \<times> ID \<times> nat \<Rightarrow> error + search_state" where
  "relax cdf current pp pdt cbdt threshold st e =
     (case time_filter cdf (st_store st) pp pdt cbdt threshold e of
        Inl x \<Rightarrow> Inl x
      | Inr ok \<Rightarrow>
          if \<not> ok then Inr st
          else (case e of (u, neighbor, properties) \<Rightarrow>
            (case st_distances st current of
               None \<Rightarrow> Inl (KeyError ''distances'' current)
             | Some dcurr \<Rightarrow>
                 (case TimeDistance_add (st_store st) dcurr properties of
                    Inl x \<Rightarrow> Inl x
                  | Inr (s', new_dist) \<Rightarrow>
                      (case st_distances st neighbor of
                         None \<Rightarrow> Inl (KeyError ''distances'' neighbor)
                       | Some dn \<Rightarrow>
                           if lt new_dist dn
                           then (let st1 = st\<lparr>st_store := s',
                                              st_distances := (st_distances st)(neighbor \<mapsto> updated new_dist),
                                              st_prev := (st_prev st)(neighbor \<mapsto> current)\<rparr>
                                 in if neighbor \<notin> st_visited st1
                                    then Inr (st1\<lparr>st_visited := insert neighbor (st_visited st1),
                                                  st_queue := st_queue st1 @ [(updated new_dist, neighbor)]\<rparr>)
                                    else Inr st1)
                           else Inr (st\<lparr>st_store := s'\<rparr>))))))"

fun relax_all ::
  "(gamma_params \<Rightarrow> real \<Rightarrow> real) \<Rightarrow> ID \<Rightarrow> nat \<Rightarrow> Time \<Rightarrow> ext \<Rightarrow> real \<Rightarrow> (ID \<times> ID \<times> nat) list \<Rightarrow>
   search_state \<Rightarrow> error + search_state" where
  "relax_all cdf current pp pdt cbdt threshold [] st = Inr st"
| "relax_all cdf current pp pdt cbdt threshold (e # es) st =
     (case relax cdf current pp pdt cbdt threshold st e of
        Inl x \<Rightarrow> Inl x
      | Inr st' \<Rightarrow> relax_all cdf current pp pdt cbdt threshold es st')"

text \<open>
  One pass of the \<open>while\<close> loop: pop a stop, mark it, compute what \<open>neighbours\<close> fixes,
  and run the \<open>for\<close> loop over its out-edges.
\<close>

definition visit ::
  "(gamma_params \<Rightarrow> real \<Rightarrow> real) \<Rightarrow> nat \<Rightarrow> ID \<Rightarrow> Time \<Rightarrow> real \<Rightarrow> search_state \<Rightarrow> error + search_state" where
  "visit cdf g start arr_time_target threshold st =
     (case queue_get (st_queue st) of ((_, current), q') \<Rightarrow>
        let st1 = st\<lparr>st_queue := q', st_visited := insert current (st_visited st)\<rparr>
        in (case st_distances st1 current of
              None \<Rightarrow> Inl (KeyError ''distances'' current)
            | Some dcurr \<Rightarrow>
                (case st_distances st1 start of
                   None \<Rightarrow> Inl (KeyError ''distances'' start)
                 | Some dstart \<Rightarrow>
                     relax_all cdf current (prev_props dcurr)
                       (previous_dep_time (st_store st1) dcurr)
                       (ext_minus arr_time_target (cost dstart))
                       threshold
                       (out_edges (graphs (st_store st1) ! g) current)
                       st1)))"

function main_loop ::
  "(gamma_params \<Rightarrow> real \<Rightarrow> real) \<Rightarrow> nat \<Rightarrow> ID \<Rightarrow> Time \<Rightarrow> real \<Rightarrow> search_state \<Rightarrow> error + search_state" where
  "main_loop cdf g start arr_time_target threshold st =
     (if st_queue st = [] then Inr st
      else (case visit cdf g start arr_time_target threshold st of
              Inl x \<Rightarrow> Inl x
            | Inr st' \<Rightarrow> main_loop cdf g start arr_time_target threshold st'))"
  by pat_completeness auto

text \<open>
  The \<open>while\<close> loop ends: a stop enters the queue only when it is not yet in
  \<open>visited\<close>, and then it is put there; every pass removes one entry.
\<close>

definition targets :: "Graph \<Rightarrow> ID set" where
  "targets gr = (\<lambda>(u, v, k, p). v) ` set (edges gr)"

definition search_measure :: "nat \<Rightarrow> search_state \<Rightarrow> nat" where
  "search_measure g st =
     2 * card (targets (graphs (st_store st) ! g) - st_visited st) + length (st_queue st)"

lemma TimeDistance_add_graphs:
  "TimeDistance_add s l p = Inr (s', l') \<Longrightarrow> graphs s' = graphs s"
  by (auto simp: TimeDistance_add_def TimeDistance_init_def new_dict_def set_item_def Let_def
      split: if_splits option.splits sum.splits prod.splits)

lemma least_entry_mem: "least_entry m xs \<in> set (m # xs)"
  by (induction xs arbitrary: m) auto

lemma queue_get_length:
  "q \<noteq> [] \<Longrightarrow> queue_get q = (x, q') \<Longrightarrow> Suc (length q') = length q"
proof -
  assume ne: "q \<noteq> []" and g: "queue_get q = (x, q')"
  have "least_entry (hd q) (tl q) \<in> set (hd q # tl q)" by (rule least_entry_mem)
  with ne have mem: "least_entry (hd q) (tl q) \<in> set q" by simp
  from g have "q' = remove1 (least_entry (hd q) (tl q)) q"
    by (auto simp add: queue_get_def Let_def)
  with mem ne show ?thesis by (simp add: length_remove1)
qed

lemma finite_targets: "finite (targets gr)"
  by (simp add: targets_def)

lemma card_Diff_insert_mem:
  "finite U \<Longrightarrow> v \<in> U \<Longrightarrow> v \<notin> V \<Longrightarrow> Suc (card (U - insert v V)) = card (U - V)"
proof -
  assume f: "finite U" and m: "v \<in> U" and n: "v \<notin> V"
  have "U - V = insert v (U - insert v V)" using m n by auto
  moreover have "v \<notin> U - insert v V" by simp
  moreover have "finite (U - insert v V)" using f by simp
  ultimately show ?thesis by (metis card_insert_disjoint)
qed

lemma relax_measure:
  assumes "relax cdf cur pp pdt cbdt th st (u, v, p) = Inr st'"
    and "v \<in> targets (graphs (st_store st) ! g)"
  shows "graphs (st_store st') = graphs (st_store st) \<and> search_measure g st' \<le> search_measure g st"
  using assms card_Diff_insert_mem[OF finite_targets, of v "graphs (st_store st) ! g" "st_visited st"]
  by (auto simp: relax_def search_measure_def Let_def dest!: TimeDistance_add_graphs
      split: sum.splits if_splits option.splits prod.splits)

lemma relax_all_measure:
  assumes "relax_all cdf cur pp pdt cbdt th es st = Inr st'"
    and "\<forall>(u, v, p) \<in> set es. v \<in> targets (graphs (st_store st) ! g)"
  shows "graphs (st_store st') = graphs (st_store st) \<and> search_measure g st' \<le> search_measure g st"
  using assms
proof (induction es arbitrary: st)
  case Nil
  then show ?case by simp
next
  case (Cons e es)
  obtain u v p where e: "e = (u, v, p)" by (cases e)
  from Cons.prems(1) obtain st1 where
    r: "relax cdf cur pp pdt cbdt th st (u, v, p) = Inr st1"
    and ra: "relax_all cdf cur pp pdt cbdt th es st1 = Inr st'"
    by (auto simp: e split: sum.splits)
  from Cons.prems(2) have v: "v \<in> targets (graphs (st_store st) ! g)" by (simp add: e)
  from relax_measure[OF r v] have g1: "graphs (st_store st1) = graphs (st_store st)"
    and m1: "search_measure g st1 \<le> search_measure g st" by simp_all
  from Cons.prems(2) g1 have "\<forall>(u, v, p) \<in> set es. v \<in> targets (graphs (st_store st1) ! g)"
    by simp
  from Cons.IH[OF ra this] g1 m1 show ?case by simp
qed

lemma out_edges_targets: "\<forall>(u, v, p) \<in> set (out_edges gr stop). v \<in> targets gr"
  by (force simp: out_edges_def targets_def)

lemma visit_measure:
  assumes "st_queue st \<noteq> []" and "visit cdf g start T th st = Inr st'"
  shows "graphs (st_store st') = graphs (st_store st) \<and> search_measure g st' < search_measure g st"
proof -
  obtain l cur q' where qg: "queue_get (st_queue st) = ((l, cur), q')"
    by (metis prod.exhaust)
  define st1 where "st1 = st\<lparr>st_queue := q', st_visited := insert cur (st_visited st)\<rparr>"
  from assms(2) qg obtain dcur dstart where
    ra: "relax_all cdf cur (prev_props dcur) (previous_dep_time (st_store st1) dcur)
           (ext_minus T (cost dstart)) th (out_edges (graphs (st_store st1) ! g) cur) st1 = Inr st'"
    by (auto simp: visit_def Let_def st1_def split: option.splits)
  from relax_all_measure[OF ra out_edges_targets]
  have g: "graphs (st_store st') = graphs (st_store st1)"
    and m: "search_measure g st' \<le> search_measure g st1" by simp_all
  have len: "Suc (length q') = length (st_queue st)"
    using queue_get_length[OF assms(1) qg] .
  have "card (targets (graphs (st_store st) ! g) - insert cur (st_visited st))
        \<le> card (targets (graphs (st_store st) ! g) - st_visited st)"
    by (rule card_mono) (auto simp: finite_targets)
  with len have "search_measure g st1 < search_measure g st"
    by (simp add: search_measure_def st1_def)
  with g m show ?thesis by (simp add: st1_def)
qed

termination main_loop
  by (relation "measure (\<lambda>(cdf, g, start, T, th, st). search_measure g st)")
     (auto dest: visit_measure)

declare main_loop.simps [simp del]

text \<open>
  \<open>build_route\<close>.  Its \<open>while node != end\<close> loop follows \<open>prev\<close> and need not end
  when \<open>prev\<close> has a cycle; not returning is the value \<open>None\<close>.
\<close>

partial_function (option) build_route_loop ::
  "(ID \<rightharpoonup> ID) \<Rightarrow> (ID \<rightharpoonup> TimeDistance) \<Rightarrow> ID \<Rightarrow> ID \<Rightarrow> TimeDistance \<Rightarrow> Route \<Rightarrow>
   (error + Route) option" where
  "build_route_loop prev ds endp node label route =
     (if node \<noteq> endp
      then (case prev node of
              None \<Rightarrow> Some (Inl (KeyError ''prev'' node))
            | Some node' \<Rightarrow>
                (case ds node' of
                   None \<Rightarrow> Some (Inl (KeyError ''distances'' node'))
                 | Some label' \<Rightarrow>
                     build_route_loop prev ds endp node' label' (Route_append route node label)))
      else Some (Inr (Route_append route node label)))"

declare build_route_loop.simps [code]

definition build_route :: "nat \<Rightarrow> search_state \<Rightarrow> ID \<Rightarrow> ID \<Rightarrow> (error + Route option) option" where
  "build_route g st start endp =
     (if st_prev st start = None then Some (Inr None)
      else (case st_distances st start of
              None \<Rightarrow> Some (Inl (KeyError ''distances'' start))
            | Some label \<Rightarrow>
                map_option (map_sum id Some)
                  (build_route_loop (st_prev st) (st_distances st) endp start label (Route_init g))))"

text \<open>\<open>{v: TimeDistance(time=arr_time) for v in nx.nodes(self.G)}\<close>.\<close>

fun init_distances ::
  "store \<Rightarrow> ID list \<Rightarrow> Time \<Rightarrow> (ID \<rightharpoonup> TimeDistance) \<Rightarrow> store \<times> (ID \<rightharpoonup> TimeDistance)" where
  "init_distances s [] time m = (s, m)"
| "init_distances s (v # vs) time m =
     (case TimeDistance_init s True 0 None time of (s1, label) \<Rightarrow>
        init_distances s1 vs time (m(v \<mapsto> label)))"

text \<open>
  \<open>Routing.stochastic_dijkstra\<close> on the graph object \<open>g\<close>.  \<open>arr_time\<close> is the timestamp
  (the conversion of a string by \<open>datetime\<close> is taken as done); \<open>stop_name_to_id\<close> maps
  a name to its \<open>stop_id\<close>.  The result carries the store as the call leaves it.
  \<open>resolve_stops\<close> is the formatting of the input, \<open>search_start\<close> the initialisation of
  \<open>prev\<close>, \<open>distances\<close>, \<open>visited\<close> and \<open>queue\<close> up to the first \<open>put\<close>.
\<close>

definition resolve_stops :: "(Name \<rightharpoonup> ID) \<Rightarrow> string \<Rightarrow> string \<Rightarrow> bool \<Rightarrow> error + ID \<times> ID" where
  "resolve_stops stop_name_to_id start endp names_format =
     (if names_format
      then (case stop_name_to_id start of
              None \<Rightarrow> Inl (KeyError ''stop_name_to_id'' start)
            | Some start_id \<Rightarrow>
                (case stop_name_to_id endp of
                   None \<Rightarrow> Inl (KeyError ''stop_name_to_id'' endp)
                 | Some end_id \<Rightarrow> Inr (start_id, end_id)))
      else Inr (start, endp))"

definition search_start :: "store \<Rightarrow> nat \<Rightarrow> ID \<Rightarrow> Time \<Rightarrow> error + search_state" where
  "search_start s g end_id arr_time_target =
     (case init_distances s (nodes (graphs s ! g)) arr_time_target Map.empty of
        (s1, ds) \<Rightarrow>
          (case ds end_id of
             None \<Rightarrow> Inl (KeyError ''distances'' end_id)
           | Some label \<Rightarrow>
               Inr \<lparr>st_store = s1,
                    st_distances = ds(end_id \<mapsto> updated label),
                    st_prev = Map.empty,
                    st_visited = {},
                    st_queue = [(updated label, end_id)]\<rparr>))"

definition stochastic_dijkstra ::
  "(gamma_params \<Rightarrow> real \<Rightarrow> real) \<Rightarrow> store \<Rightarrow> nat \<Rightarrow> (Name \<rightharpoonup> ID) \<Rightarrow> string \<Rightarrow> string \<Rightarrow> Time \<Rightarrow>
   real \<Rightarrow> bool \<Rightarrow> (error + store \<times> Route option) option" where
  "stochastic_dijkstra cdf s g stop_name_to_id start endp arr_time_target threshold names_format =
     (case resolve_stops stop_name_to_id start endp names_format of
        Inl x \<Rightarrow> Some (Inl x)
      | Inr ids \<Rightarrow>
          (case search_start s g (snd ids) arr_time_target of
             Inl x \<Rightarrow> Some (Inl x)
           | Inr st0 \<Rightarrow>
               (case main_loop cdf g (fst ids) arr_time_target threshold st0 of
                  Inl x \<Rightarrow> Some (Inl x)
                | Inr st \<Rightarrow>
                    map_option (map_sum id (Pair (st_store st)))
                      (build_route g st (fst ids) (snd ids)))))"

section \<open>Robust planner (routing.py)\<close>

text \<open>\<open>find_edge_key\<close> on the planner's private graph.\<close>

definition isSameEdge :: "store \<Rightarrow> nat \<Rightarrow> nat \<Rightarrow> bool" where
  "isSameEdge s props e =
     ((dep_time (dicts s ! e) = dep_time (dicts s ! props)
       \<and> arr_time (dicts s ! e) = arr_time (dicts s ! props)
       \<and> trip_id (dicts s ! e) = trip_id (dicts s ! props))
      \<or> (ttype (dicts s ! props) = ''Foot'' \<and> ttype (dicts s ! e) = ''Foot''))"

definition find_edge_key :: "store \<Rightarrow> nat \<Rightarrow> ID \<Rightarrow> ID \<Rightarrow> nat \<Rightarrow> error + nat option" where
  "find_edge_key s graph u v props =
     (if u \<notin> set (nodes (graphs s ! graph)) then Inl (KeyError ''graph'' u)
      else (case filter (\<lambda>(u', v', k, p). u' = u \<and> v' = v) (edges (graphs s ! graph)) of
              [] \<Rightarrow> Inl (KeyError ''graph'' v)
            | es \<Rightarrow>
                Inr (map_option (\<lambda>(u', v', k, p). k)
                       (find (\<lambda>(u', v', k, p). isSameEdge s props p) es))))"

text \<open>The variables that the loop of \<open>robust\<close> changes, with the store.\<close>

record robust_state =
  rb_store :: store
  rb_weakest :: "ID \<times> ID \<times> nat"
  rb_proba :: real
  rb_route :: Route
  rb_routes_list :: "Route list"
  rb_i :: int

function robust_loop ::
  "(gamma_params \<Rightarrow> real \<Rightarrow> real) \<Rightarrow> nat \<Rightarrow> (Name \<rightharpoonup> ID) \<Rightarrow> string \<Rightarrow> string \<Rightarrow> Time \<Rightarrow> real \<Rightarrow>
   int \<Rightarrow> int \<Rightarrow> robust_state \<Rightarrow> (error + store \<times> Route list) option" where
  "robust_loop cdf graph stop_name_to_id start endp arr_time_target threshold max_iter
       number_of_routes rs =
     (if rb_i rs < max_iter \<and> int (length (rb_routes_list rs)) < number_of_routes
      then (case rb_weakest rs of (u, v, props) \<Rightarrow>
        (case find_edge_key (rb_store rs) graph u v props of
           Inl x \<Rightarrow> Some (Inl x)
         | Inr to_remove \<Rightarrow>
             (case remove_edge (rb_store rs) graph u v to_remove of
                Inl x \<Rightarrow> Some (Inl x)
              | Inr s1 \<Rightarrow>
                  (case stochastic_dijkstra cdf s1 graph stop_name_to_id start endp
                          arr_time_target threshold True of
                     None \<Rightarrow> None
                   | Some res \<Rightarrow>
                       (case res of
                          Inl x \<Rightarrow> Some (Inl x)
                        | Inr sr \<Rightarrow>
                            (case snd sr of
                               None \<Rightarrow>
                                 Some (Inr (fst sr,
                                   if rb_routes_list rs = [] then rb_routes_list rs @ [rb_route rs]
                                   else rb_routes_list rs))
                             | Some new_route \<Rightarrow>
                                 (case success_proba cdf (fst sr) new_route of
                                    Inl x \<Rightarrow> Some (Inl x)
                                  | Inr pw \<Rightarrow>
                                      robust_loop cdf graph stop_name_to_id start endp
                                        arr_time_target threshold max_iter number_of_routes
                                        \<lparr>rb_store = fst sr,
                                         rb_weakest = snd pw,
                                         rb_proba = (if rb_proba rs < fst pw then fst pw
                                                     else rb_proba rs),
                                         rb_route = (if rb_proba rs < fst pw then new_route
                                                     else rb_route rs),
                                         rb_routes_list =
                                           (if fst pw \<ge> threshold
                                            then rb_routes_list rs @ [new_route]
                                            else rb_routes_list rs),
                                         rb_i = rb_i rs + 1\<rparr>)))))))
      else Some (Inr (rb_store rs,
             if rb_routes_list rs = [] then rb_routes_list rs @ [rb_route rs]
             else rb_routes_list rs)))"
  by pat_completeness auto
termination
  by (relation "measure (\<lambda>(cdf, graph, m, start, endp, T, th, max_iter, n, rs).
        nat (max_iter - rb_i rs))") auto

declare robust_loop.simps [simp del]

text \<open>
  \<open>Routing.robust\<close> of a planner whose graph is the object \<open>g\<close>; the result is
  \<open>None\<close> or the list of routes.
\<close>

definition robust ::
  "(gamma_params \<Rightarrow> real \<Rightarrow> real) \<Rightarrow> store \<Rightarrow> nat \<Rightarrow> (Name \<rightharpoonup> ID) \<Rightarrow> string \<Rightarrow> string \<Rightarrow> Time \<Rightarrow>
   real \<Rightarrow> int \<Rightarrow> int \<Rightarrow> (error + store \<times> Route list option) option" where
  "robust cdf s g stop_name_to_id start endp arr_time_target threshold max_iter number_of_routes =
     (case copy_graph s g of (s0, graph) \<Rightarrow>
        (case stochastic_dijkstra cdf s0 g stop_name_to_id start endp arr_time_target
                threshold True of
           None \<Rightarrow> None
         | Some res \<Rightarrow>
             (case res of
                Inl x \<Rightarrow> Some (Inl x)
              | Inr sr \<Rightarrow>
                  (case snd sr of
                     None \<Rightarrow> Some (Inr (fst sr, None))
                   | Some route \<Rightarrow>
                       (case success_proba cdf (fst sr) route of
                          Inl x \<Rightarrow> Some (Inl x)
                        | Inr pw \<Rightarrow>
                            map_option (map_sum id (\<lambda>(s', routes_list). (s', Some routes_list)))
                              (robust_loop cdf graph stop_name_to_id start endp arr_time_target
                                 threshold max_iter number_of_routes
                                 \<lparr>rb_store = fst sr,
                                  rb_weakest = snd pw,
                                  rb_proba = fst pw,
                                  rb_route = route,
                                  rb_routes_list = (if fst pw \<ge> threshold then [route] else []),
                                  rb_i = 1\<rparr>))))))"

section \<open>The specification's tables and example data\<close>

text \<open>
  The transfer-penalty table as the specification prints it, to be compared with
  \<open>EXTRA_TRANSFER_TIME\<close>.
\<close>

definition spec_penalty :: "string \<Rightarrow> Time option" where
  "spec_penalty mode =
     (if mode = ''Bus'' \<or> mode = ''Foot'' then Some 20
      else if mode = ''Tram'' then Some 30
      else if mode = ''S-Bahn'' \<or> mode = ''Extrazug'' then Some 100
      else if mode = ''InterRegio'' \<or> mode = ''Eurocity'' \<or> mode = ''RegioExpress''
              \<or> mode = ''ICE'' \<or> mode = ''Eurostar'' \<or> mode = ''Intercity'' then Some 120
      else None)"

text \<open>Two scheduled legs with a delay model, used as concrete inputs.\<close>

definition example_bus :: EdgeProps where
  "example_bus =
     \<lparr>gamma = Some (1, 0, 60), arr_time = 28800, dep_time = 28200, ttype = ''Bus'',
      trip_id = TripStr ''T1'', travel_time = Some 600\<rparr>"

definition example_tram :: EdgeProps where
  "example_tram =
     \<lparr>gamma = Some (1, 0, 60), arr_time = 29400, dep_time = 28900, ttype = ''Tram'',
      trip_id = TripStr ''T2'', travel_time = Some 500\<rparr>"

text \<open>
  A walking edge as the graph builder creates it, and a store holding a small network
  (real-world travel A to B by bus, B to D on foot, D to C by tram, stored reversed)
  together with the dictionary of an initial label for the target time 29400.
\<close>

definition example_foot :: EdgeProps where
  "example_foot =
     \<lparr>gamma = None, arr_time = 0, dep_time = 0, ttype = ''Foot'',
      trip_id = FOOT_TRIP_ID, travel_time = Some 60\<rparr>"

definition example_store :: store where
  "example_store =
     \<lparr>dicts = [example_bus, example_foot, example_tram, INIT_PROPS 29400],
      graphs = [\<lparr>nodes = [''B'', ''A'', ''D'', ''C''],
                 edges = [(''B'', ''A'', 0, 0), (''D'', ''B'', 0, 1), (''C'', ''D'', 0, 2)]\<rparr>]\<rparr>"

text \<open>A three-stop route over the example store (bus, walk, tram).\<close>

definition example_route :: Route where
  "example_route =
     \<lparr>route_G = 0, connections = [''A'', ''B'', ''D''],
      distances = [\<lparr>first = False, cum_time = 1500, prev_props = 0\<rparr>,
                   \<lparr>first = False, cum_time = 800, prev_props = 1\<rparr>,
                   \<lparr>first = False, cum_time = 500, prev_props = 2\<rparr>]\<rparr>"

text \<open>
  A distribution function with rational values (0 up to the location, 17/20 beyond), so
  that whole searches can be evaluated on the example network, and a name index for it.
\<close>

definition step_cdf :: "gamma_params \<Rightarrow> real \<Rightarrow> real" where
  "step_cdf g x = (case g of (shape, loc, scale) \<Rightarrow> if x \<le> loc then 0 else 17 / 20)"

definition example_names :: "Name \<rightharpoonup> ID" where
  "example_names = [''Aarau'' \<mapsto> ''A'', ''Chur'' \<mapsto> ''C'']"

text \<open>
  What a call may do to the store: \<open>frame\<close> says that no graph object changed and every
  dictionary that existed is unchanged (new ones may have been created); \<open>keeps n\<close> says the
  same of the dictionaries and of the first \<open>n\<close> graph objects.
\<close>

definition frame :: "store \<Rightarrow> store \<Rightarrow> bool" where
  "frame s s' \<longleftrightarrow> graphs s' = graphs s \<and> prefix (dicts s) (dicts s')"

definition keeps :: "nat \<Rightarrow> store \<Rightarrow> store \<Rightarrow> bool" where
  "keeps n s s' \<longleftrightarrow> prefix (dicts s) (dicts s') \<and> take n (graphs s') = take n (graphs s)"

text \<open>
  Well-formedness of a graph in a store: \<open>valid_graph\<close> says that the edges refer to
  existing dictionaries; \<open>scheduled\<close> is the data-model invariant that a scheduled
  (non-walking) edge has \<open>travel_time = arr_time - dep_time\<close>; \<open>typed_graph\<close> says that
  the mode of every edge is one of the modes of the penalty table.
\<close>

definition valid_graph :: "store \<Rightarrow> nat \<Rightarrow> bool" where
  "valid_graph s g \<longleftrightarrow> (\<forall>(u, v, k, p) \<in> set (edges (graphs s ! g)). p < length (dicts s))"

definition scheduled :: "store \<Rightarrow> nat \<Rightarrow> bool" where
  "scheduled s g \<longleftrightarrow>
     (\<forall>(u, v, k, p) \<in> set (edges (graphs s ! g)).
        ttype (dicts s ! p) \<noteq> ''Foot'' \<longrightarrow>
        travel_time (dicts s ! p) = Some (arr_time (dicts s ! p) - dep_time (dicts s ! p)))"

definition typed_graph :: "store \<Rightarrow> nat \<Rightarrow> bool" where
  "typed_graph s g \<longleftrightarrow>
     (\<forall>(u, v, k, p) \<in> set (edges (graphs s ! g)). spec_penalty (ttype (dicts s ! p)) \<noteq> None)"

text \<open>
  The invariant of the search loop, relative to the store \<open>s\<close> in which the search began:
  the store was only extended; every label refers to an existing dictionary; on a
  \<open>scheduled\<close> graph \<open>cum_time + prev_props.dep_time\<close> is the target time for every
  label; on a \<open>typed_graph\<close> the label of every stop that has a predecessor carries a mode
  of the penalty table.
\<close>

definition search_inv :: "store \<Rightarrow> nat \<Rightarrow> Time \<Rightarrow> search_state \<Rightarrow> bool" where
  "search_inv s g T st \<longleftrightarrow>
     frame s (st_store st)
     \<and> (\<forall>v l. st_distances st v = Some l \<longrightarrow> prev_props l < length (dicts (st_store st)))
     \<and> (scheduled s g \<longrightarrow>
          (\<forall>v l. st_distances st v = Some l \<longrightarrow>
             cum_time l + dep_time (dicts (st_store st) ! prev_props l) = T))
     \<and> (typed_graph s g \<longrightarrow>
          (\<forall>v u. st_prev st v = Some u \<longrightarrow>
             (\<exists>l. st_distances st v = Some l
                  \<and> spec_penalty (ttype (dicts (st_store st) ! prev_props l)) \<noteq> None)))"

text \<open>
  What \<open>build_route\<close> appends to a route: the stops \<open>node # ns\<close> with their labels
  \<open>label # ls\<close>, where every stop but the last has a predecessor and every stop after
  the first carries its label of \<open>distances\<close>.
\<close>

definition route_shape ::
  "(ID \<rightharpoonup> ID) \<Rightarrow> (ID \<rightharpoonup> TimeDistance) \<Rightarrow> ID \<Rightarrow> TimeDistance \<Rightarrow> Route \<Rightarrow> Route \<Rightarrow> bool" where
  "route_shape prv ds node label route r \<longleftrightarrow>
     (\<exists>ns ls. connections r = connections route @ node # ns
         \<and> distances r = distances route @ label # ls
         \<and> length ns = length ls
         \<and> (\<forall>i < length ls. prv ((node # ns) ! i) \<noteq> None
                \<and> ds ((node # ns) ! Suc i) = Some ((label # ls) ! Suc i)))"

section \<open>Verified properties\<close>

subsection \<open>Delay model\<close>

lemma EXTRA_TRANSFER_TIME_spec: "map_of EXTRA_TRANSFER_TIME = spec_penalty"
  by (rule ext) (simp add: EXTRA_TRANSFER_TIME_def spec_penalty_def)

text \<open>
  C1, as stated, fails: with the initial label's dictionary as \<open>prev_props\<close> (its
  \<open>gamma\<close> is absent) and a different trip, the table lookup raises before any of the
  three fall-throughs is reached.
\<close>

theorem C1_counterexample:
  "gamma (INIT_PROPS 28800) = None \<and>
   connection_probability shape1_cdf (INIT_PROPS 28800) example_tram
     = Inl (KeyError ''EXTRA_TRANSFER_TIME'' ''Init'')"
  by (simp add: connection_probability_def compute_delay_def INIT_PROPS_def INIT_TTYPE_def
      INIT_TRIP_ID_def example_tram_def EXTRA_TRANSFER_TIME_def)

text \<open>
  C1, amended: for every edge pair whose trip identifiers are equal or whose
  \<open>prev_props.ttype\<close> is a key of the penalty table, \<open>connection_probability\<close> returns 1
  when the trip identifiers are equal, when \<open>curr_props.ttype\<close> is \<open>Foot\<close> or when
  \<open>prev_props.gamma\<close> is absent; otherwise it returns the distribution function of
  \<open>prev_props.gamma\<close> at the slack \<open>curr_props.dep_time - prev_props.arr_time\<close> minus the
  penalty that the specification's table gives for \<open>prev_props.ttype\<close>.
\<close>

theorem connection_probability_cases:
  assumes "trip_id pp = trip_id cp \<or> spec_penalty (ttype pp) \<noteq> None"
  shows "connection_probability cdf pp cp =
           Inr (if trip_id pp = trip_id cp \<or> ttype cp = ''Foot'' \<or> gamma pp = None then 1
                else cdf (the (gamma pp))
                       ((dep_time cp - arr_time pp) - the (spec_penalty (ttype pp))))"
  using assms
  by (auto simp: connection_probability_def compute_delay_def connection_probability_wrapper_def
      EXTRA_TRANSFER_TIME_spec Let_def split: option.splits)

theorem connection_probability_cases_witness:
  "spec_penalty (ttype example_bus) = Some 20 \<and>
   connection_probability shape1_cdf example_bus example_tram = Inr (shape1_cdf (1, 0, 60) 80)"
  using connection_probability_cases [of example_bus example_tram shape1_cdf]
  by (simp add: example_bus_def example_tram_def spec_penalty_def)

text \<open>
  C7, as stated, fails: the gate passes the relaxed edge as \<open>prev_props\<close> and the initial
  label's dictionary as \<open>curr_props\<close>, so the \<open>gamma\<close> that is read is the edge's own.  A
  tram that arrives exactly at the target time has probability 0 on its first hop and is
  rejected by the filter.
\<close>

theorem C7_counterexample:
  "gamma (INIT_PROPS 29400) = None
   \<and> trip_id example_tram \<noteq> trip_id (INIT_PROPS 29400)
   \<and> connection_probability shape1_cdf example_tram (INIT_PROPS 29400) = Inr 0
   \<and> time_filter shape1_cdf example_store 3 29400 MInf (4 / 5) (''C'', ''D'', 2) = Inr False"
  by (simp add: connection_probability_def compute_delay_def connection_probability_wrapper_def
      INIT_PROPS_def INIT_TTYPE_def INIT_TRIP_ID_def example_tram_def EXTRA_TRANSFER_TIME_def
      shape1_cdf_def time_filter_def example_store_def MAX_WAITING_TIME_def)

text \<open>
  C7, amended: for every edge relaxed directly from the initial label, whose \<open>trip_id\<close>
  is not the sentinel's and whose \<open>ttype\<close> is in the penalty table, the trip identifiers
  differ (a mode change, the penalty is subtracted) and the probability the gate evaluates
  is 1 when the relaxed edge's own \<open>gamma\<close> is absent, and otherwise the distribution
  function of that \<open>gamma\<close> at \<open>arr_time_target - arr_time - penalty\<close>.
\<close>

theorem first_hop_probability:
  assumes "trip_id e \<noteq> INIT_TRIP_ID" and "spec_penalty (ttype e) = Some penalty"
  shows "trip_id e \<noteq> trip_id (INIT_PROPS T)
     \<and> connection_probability cdf e (INIT_PROPS T) =
         Inr (case gamma e of
                None \<Rightarrow> 1
              | Some g \<Rightarrow> cdf g (T - arr_time e - penalty))"
  using assms
  by (auto simp: connection_probability_def compute_delay_def connection_probability_wrapper_def
      EXTRA_TRANSFER_TIME_spec INIT_PROPS_def INIT_TTYPE_def Let_def split: option.splits)

theorem first_hop_probability_witness:
  "connection_probability shape1_cdf example_bus (INIT_PROPS 28900)
     = Inr (shape1_cdf (1, 0, 60) 80)"
  using first_hop_probability [of example_bus 20 28900 shape1_cdf]
  by (simp add: example_bus_def spec_penalty_def INIT_TRIP_ID_def)

subsection \<open>Labelled distance\<close>

lemma TimeDistance_add_result:
  assumes tt: "travel_time (dicts s ! e) = Some tt"
    and pp: "prev_props l < length (dicts s)"
  shows "\<exists>s'. TimeDistance_add s l e =
           Inr (s', \<lparr>first = first l,
                     cum_time = cum_time l + dep_time (dicts s ! prev_props l)
                                - (if ttype (dicts s ! e) = ''Foot''
                                   then dep_time (dicts s ! prev_props l)
                                   else arr_time (dicts s ! e)) + tt,
                     prev_props = (if ttype (dicts s ! e) = ''Foot'' then length (dicts s) else e)\<rparr>)
         \<and> graphs s' = graphs s
         \<and> dicts s' =
             (if ttype (dicts s ! e) = ''Foot''
              then dicts s @ [(dicts s ! e)\<lparr>dep_time := dep_time (dicts s ! prev_props l) - tt,
                                          arr_time := dep_time (dicts s ! prev_props l)\<rparr>]
              else dicts s)"
  using assms
  by (auto simp: TimeDistance_add_def TimeDistance_init_def new_dict_def set_item_def Let_def
      nth_append)

text \<open>
  C3: for a label \<open>l\<close> and an edge dictionary \<open>e\<close> (with its \<open>travel_time\<close>), \<open>l + e\<close>
  returns a label whose dictionary \<open>e'\<close> is \<open>e\<close> itself or, for a walking edge, a copy
  with \<open>dep_time = l.prev_props.dep_time - travel_time\<close> and
  \<open>arr_time = l.prev_props.dep_time\<close>; its \<open>cum_time\<close> is
  \<open>l.cum_time + (l.prev_props.dep_time - e'.arr_time) + e'.travel_time\<close> and its flag
  \<open>first\<close> is that of \<open>l\<close>.
\<close>

theorem TimeDistance_add_relaxation:
  assumes "travel_time (dicts s ! e) = Some tt"
    and "prev_props l < length (dicts s)"
  shows "\<exists>s' l'. TimeDistance_add s l e = Inr (s', l')
     \<and> (ttype (dicts s ! e) = ''Foot'' \<longrightarrow>
          dep_time (dicts s' ! prev_props l') = dep_time (dicts s ! prev_props l) - tt
          \<and> arr_time (dicts s' ! prev_props l') = dep_time (dicts s ! prev_props l))
     \<and> cum_time l' = cum_time l
          + (dep_time (dicts s ! prev_props l) - arr_time (dicts s' ! prev_props l'))
          + the (travel_time (dicts s' ! prev_props l'))
     \<and> dicts s' ! prev_props l' =
          (if ttype (dicts s ! e) = ''Foot''
           then (dicts s ! e)\<lparr>dep_time := dep_time (dicts s ! prev_props l) - tt,
                              arr_time := dep_time (dicts s ! prev_props l)\<rparr>
           else dicts s ! e)
     \<and> first l' = first l"
proof -
  from TimeDistance_add_result[OF assms] obtain s' where
    r: "TimeDistance_add s l e =
           Inr (s', \<lparr>first = first l,
                     cum_time = cum_time l + dep_time (dicts s ! prev_props l)
                                - (if ttype (dicts s ! e) = ''Foot''
                                   then dep_time (dicts s ! prev_props l)
                                   else arr_time (dicts s ! e)) + tt,
                     prev_props = (if ttype (dicts s ! e) = ''Foot'' then length (dicts s) else e)\<rparr>)"
    and d: "dicts s' =
             (if ttype (dicts s ! e) = ''Foot''
              then dicts s @ [(dicts s ! e)\<lparr>dep_time := dep_time (dicts s ! prev_props l) - tt,
                                          arr_time := dep_time (dicts s ! prev_props l)\<rparr>]
              else dicts s)"
    by blast
  show ?thesis
    unfolding r using d assms(1) by (cases "ttype (dicts s ! e) = ''Foot''") simp_all
qed

theorem TimeDistance_add_relaxation_witness:
  "\<exists>s' l'. TimeDistance_add example_store \<lparr>first = False, cum_time = 600, prev_props = 2\<rparr> 1
              = Inr (s', l')
     \<and> dep_time (dicts s' ! prev_props l') = 28840
     \<and> arr_time (dicts s' ! prev_props l') = 28900
     \<and> cum_time l' = 660
     \<and> first l' = False"
  using TimeDistance_add_relaxation
          [of example_store 1 60 "\<lparr>first = False, cum_time = 600, prev_props = 2\<rparr>"]
  by (auto simp: example_store_def example_foot_def example_tram_def)

subsection \<open>Routes\<close>

text \<open>
  C10: on a route with exactly one stop the assertion of \<open>success_proba\<close> passes, its
  loop is empty and the unassigned \<open>least_proba_edge\<close> makes the call fail, whereas
  \<open>dep_time\<close>, \<open>travel_time\<close> and \<open>arr_time\<close> return.
\<close>

theorem one_stop_route:
  "success_proba cdf s \<lparr>route_G = g, connections = [v], distances = d # ds\<rparr>
     = Inl UnboundLocalError
   \<and> Route_dep_time s \<lparr>route_G = g, connections = [v], distances = d # ds\<rparr>
       = Inr (dep_time (dicts s ! prev_props d))
   \<and> Route_travel_time \<lparr>route_G = g, connections = [v], distances = d # ds\<rparr>
       = Inr (cum_time d)
   \<and> Route_arr_time s \<lparr>route_G = g, connections = [v], distances = d # ds\<rparr>
       = Inr (cum_time d + dep_time (dicts s ! prev_props d))"
  by (simp add: success_proba_def Route_dep_time_def Route_travel_time_def Route_arr_time_def)

subsection \<open>The edge filter of the search\<close>

text \<open>
  C2: when the stop whose label is \<open>l\<close> is popped, the filter accepts the out-edge
  \<open>(u, v, props)\<close> exactly if (it is a walking edge, or its arrival lies in the waiting
  band of 2700 seconds before \<open>l.prev_props.dep_time\<close> and its departure is not before
  \<open>arr_time_target - label[start].cost()\<close>, which is no restriction while that label is
  uninitialised), it is not a second walking edge in a row, and the connection probability
  with \<open>props\<close> as \<open>prev_props\<close> is at least the threshold.
\<close>

theorem time_filter_eligible:
  assumes "connection_probability cdf (dicts s ! props) (dicts s ! prev_props l) = Inr q"
  shows "MAX_WAITING_TIME = 2700
     \<and> time_filter cdf s (prev_props l) (previous_dep_time s l)
         (ext_minus arr_time_target (cost label_start)) threshold (u, v, props) =
       Inr ((ttype (dicts s ! props) = ''Foot''
             \<or> (dep_time (dicts s ! prev_props l) \<ge> arr_time (dicts s ! props)
                \<and> arr_time (dicts s ! props) \<ge> dep_time (dicts s ! prev_props l) - 2700
                \<and> (first label_start
                    \<or> dep_time (dicts s ! props) \<ge> arr_time_target - cum_time label_start)))
            \<and> \<not> (ttype (dicts s ! props) = ''Foot'' \<and> ttype (dicts s ! prev_props l) = ''Foot'')
            \<and> q \<ge> threshold)"
  using assms
  by (auto simp: time_filter_def previous_dep_time_def MAX_WAITING_TIME_def cost_def Let_def)

theorem time_filter_eligible_witness:
  "time_filter shape1_cdf example_store 3 29400 (Fin 28900) (4 / 5) (''C'', ''D'', 2) = Inr False
   \<and> time_filter shape1_cdf example_store 2 28900 MInf (4 / 5) (''D'', ''B'', 1) = Inr True"
  using time_filter_eligible
          [of shape1_cdf example_store 2 "\<lparr>first = False, cum_time = 0, prev_props = 3\<rparr>" 0
              29400 "\<lparr>first = False, cum_time = 500, prev_props = 0\<rparr>" "4 / 5" "''C''" "''D''"]
        time_filter_eligible
          [of shape1_cdf example_store 1 "\<lparr>first = False, cum_time = 500, prev_props = 2\<rparr>" 1
              29400 "\<lparr>first = True, cum_time = 0, prev_props = 0\<rparr>" "4 / 5" "''D''" "''B''"]
  by (simp add: example_store_def example_foot_def example_tram_def example_bus_def INIT_PROPS_def
      connection_probability_def compute_delay_def connection_probability_wrapper_def
      INIT_TTYPE_def INIT_TRIP_ID_def FOOT_TRIP_ID_def EXTRA_TRANSFER_TIME_def shape1_cdf_def
      previous_dep_time_def cost_def)

subsection \<open>Success probability of a route\<close>

lemma success_proba_loop_keep:
  assumes "\<forall>i. k \<le> i \<and> i < m \<longrightarrow>
             connection_probability cdf (dicts s ! prev_props (ds ! i))
               (dicts s ! prev_props (ds ! (i + 1))) = Inr (q i) \<and> l < q i"
    and "m < length ds"
  shows "success_proba_loop cdf s ds (map (\<lambda>i. (i, c ! i, c ! (i + 1))) [k ..< m]) (p, l, e)
           = Inr (p * prod q {k ..< m}, l, e)"
  using assms
proof (induction "m - k" arbitrary: k p)
  case 0
  then show ?case by simp
next
  case (Suc d)
  then have km: "k < m" and d: "d = m - Suc k" by simp_all
  from Suc.prems(1) km have
    qk: "connection_probability cdf (dicts s ! prev_props (ds ! k))
           (dicts s ! prev_props (ds ! (k + 1))) = Inr (q k)"
    and lk: "l < q k" by simp_all
  have rest: "\<forall>i. Suc k \<le> i \<and> i < m \<longrightarrow>
             connection_probability cdf (dicts s ! prev_props (ds ! i))
               (dicts s ! prev_props (ds ! (i + 1))) = Inr (q i) \<and> l < q i"
    using Suc.prems(1) by simp
  have ih: "success_proba_loop cdf s ds (map (\<lambda>i. (i, c ! i, c ! (i + 1))) [Suc k ..< m])
              (p * q k, l, e) = Inr (p * q k * prod q {Suc k ..< m}, l, e)"
    using Suc.hyps(1)[OF d rest Suc.prems(2)] .
  have pr: "prod q {k ..< m} = q k * prod q {Suc k ..< m}"
    using km by (simp add: prod.atLeast_Suc_lessThan)
  from km Suc.prems(2) have kl: "k < length ds" "Suc k < length ds" by simp_all
  show ?case
    using km kl qk lk ih by (simp add: upt_conv_Cons pr mult.assoc)
qed

lemma success_proba_loop_least:
  assumes "\<forall>i. k \<le> i \<and> i < m \<longrightarrow>
             connection_probability cdf (dicts s ! prev_props (ds ! i))
               (dicts s ! prev_props (ds ! (i + 1))) = Inr (q i)"
    and "m < length ds"
    and "k \<le> j" and "j < m"
    and "q j \<le> l"
    and "\<forall>i. k \<le> i \<and> i < m \<longrightarrow> q j \<le> q i"
    and "\<forall>i. j < i \<and> i < m \<longrightarrow> q j < q i"
  shows "success_proba_loop cdf s ds (map (\<lambda>i. (i, c ! i, c ! (i + 1))) [k ..< m]) (p, l, e)
           = Inr (p * prod q {k ..< m}, q j, Some (c ! (j + 1), c ! j, prev_props (ds ! j)))"
  using assms
proof (induction "j - k" arbitrary: k p l e)
  case 0
  then have kj: "k = j" by simp
  from 0 have km: "k < m" by simp
  have qk: "connection_probability cdf (dicts s ! prev_props (ds ! k))
           (dicts s ! prev_props (ds ! (k + 1))) = Inr (q k)"
    using "0.prems"(1) km by simp
  have rest: "\<forall>i. Suc k \<le> i \<and> i < m \<longrightarrow>
             connection_probability cdf (dicts s ! prev_props (ds ! i))
               (dicts s ! prev_props (ds ! (i + 1))) = Inr (q i) \<and> q k < q i"
    using "0.prems"(1,7) kj by simp
  have keep: "success_proba_loop cdf s ds (map (\<lambda>i. (i, c ! i, c ! (i + 1))) [Suc k ..< m])
          (p * q k, q k, Some (c ! (k + 1), c ! k, prev_props (ds ! k)))
        = Inr (p * q k * prod q {Suc k ..< m}, q k,
               Some (c ! (k + 1), c ! k, prev_props (ds ! k)))"
    by (rule success_proba_loop_keep[OF rest "0.prems"(2)])
  have pr: "prod q {k ..< m} = q k * prod q {Suc k ..< m}"
    using km by (simp add: prod.atLeast_Suc_lessThan)
  from km "0.prems"(2) have kl: "k < length ds" "Suc k < length ds" by simp_all
  from "0.prems"(5) kj have ql: "q k \<le> l" by simp
  show ?case
    using km kl qk ql keep kj pr by (simp add: upt_conv_Cons mult.assoc)
next
  case (Suc d)
  then have kj: "k < j" and d: "d = j - Suc k" by simp_all
  from kj Suc.prems(4) have km: "k < m" by simp
  have qk: "connection_probability cdf (dicts s ! prev_props (ds ! k))
           (dicts s ! prev_props (ds ! (k + 1))) = Inr (q k)"
    using Suc.prems(1) km by simp
  have rest: "\<forall>i. Suc k \<le> i \<and> i < m \<longrightarrow>
             connection_probability cdf (dicts s ! prev_props (ds ! i))
               (dicts s ! prev_props (ds ! (i + 1))) = Inr (q i)"
    using Suc.prems(1) by simp
  have mins: "\<forall>i. Suc k \<le> i \<and> i < m \<longrightarrow> q j \<le> q i"
    using Suc.prems(6) by simp
  have qjk: "q j \<le> q k" using Suc.prems(6) km by simp
  have sk: "Suc k \<le> j" using kj by simp
  have pr: "prod q {k ..< m} = q k * prod q {Suc k ..< m}"
    using km by (simp add: prod.atLeast_Suc_lessThan)
  from km Suc.prems(2) have kl: "k < length ds" "Suc k < length ds" by simp_all
  show ?case
  proof (cases "q k \<le> l")
    case True
    have ih: "success_proba_loop cdf s ds (map (\<lambda>i. (i, c ! i, c ! (i + 1))) [Suc k ..< m])
          (p * q k, q k, Some (c ! (k + 1), c ! k, prev_props (ds ! k)))
        = Inr (p * q k * prod q {Suc k ..< m}, q j,
               Some (c ! (j + 1), c ! j, prev_props (ds ! j)))"
      by (rule Suc.hyps(1)[OF d rest Suc.prems(2) sk Suc.prems(4) qjk mins Suc.prems(7)])
    show ?thesis
      using km kl qk True ih by (simp add: upt_conv_Cons pr mult.assoc)
  next
    case False
    have ih: "success_proba_loop cdf s ds (map (\<lambda>i. (i, c ! i, c ! (i + 1))) [Suc k ..< m])
          (p * q k, l, e)
        = Inr (p * q k * prod q {Suc k ..< m}, q j,
               Some (c ! (j + 1), c ! j, prev_props (ds ! j)))"
      by (rule Suc.hyps(1)[OF d rest Suc.prems(2) sk Suc.prems(4) Suc.prems(5) mins Suc.prems(7)])
    show ?thesis
      using km kl qk False ih by (simp add: upt_conv_Cons pr mult.assoc)
  qed
qed

lemma zip_consecutive:
  "zip [0 ..< length c] (zip c (tl c)) = map (\<lambda>i. (i, c ! i, c ! (i + 1))) [0 ..< length c - 1]"
  by (rule nth_equalityI) (auto simp: nth_tl)

text \<open>
  C4: on a route of at least two stops, where the transfer probabilities
  \<open>q i = connection_probability(distances[i].prev_props, distances[i+1].prev_props)\<close> are
  defined and their minimum is at most 1 (they are probabilities), \<open>success_proba\<close> returns
  the product of the \<open>q i\<close> and the triple of the last pair \<open>j\<close> that attains the minimum:
  the two stops of that pair and \<open>distances[j].prev_props\<close>.
\<close>

theorem success_proba_product_weakest:
  fixes q :: "nat \<Rightarrow> real"
  assumes "length (distances r) = length (connections r)"
    and "2 \<le> length (connections r)"
    and "\<forall>i < length (connections r) - 1.
           connection_probability cdf (dicts s ! prev_props (distances r ! i))
             (dicts s ! prev_props (distances r ! (i + 1))) = Inr (q i)"
    and "j < length (connections r) - 1"
    and "q j \<le> 1"
    and "\<forall>i < length (connections r) - 1. q j \<le> q i"
    and "\<forall>i < length (connections r) - 1. j < i \<longrightarrow> q j < q i"
  shows "success_proba cdf s r =
           Inr (\<Prod>i < length (connections r) - 1. q i,
                (connections r ! (j + 1), connections r ! j, prev_props (distances r ! j)))"
proof -
  let ?m = "length (connections r) - 1"
  have m: "?m < length (distances r)" using assms(1,2) by simp
  have loop: "success_proba_loop cdf s (distances r)
          (map (\<lambda>i. (i, connections r ! i, connections r ! (i + 1))) [0 ..< ?m]) (1, 1, None)
        = Inr (1 * prod q {0 ..< ?m}, q j,
               Some (connections r ! (j + 1), connections r ! j, prev_props (distances r ! j)))"
    by (rule success_proba_loop_least) (use assms m in auto)
  have ne: "connections r \<noteq> []" using assms(2) by auto
  have "{0 ..< ?m} = {..< ?m}" by auto
  with loop ne show ?thesis
    by (simp add: success_proba_def zip_consecutive)
qed

theorem success_proba_product_weakest_witness:
  "success_proba shape1_cdf example_store example_route = Inr (1, (''D'', ''B'', 1))"
  using success_proba_product_weakest [of example_route shape1_cdf example_store "\<lambda>i. 1" 1]
  by (simp add: example_route_def example_store_def example_bus_def example_foot_def
      example_tram_def connection_probability_def compute_delay_def
      connection_probability_wrapper_def EXTRA_TRANSFER_TIME_def FOOT_TRIP_ID_def
      less_Suc_eq numeral_2_eq_2)

subsection \<open>The store is only extended\<close>

lemma frame_refl: "frame s s"
  by (simp add: frame_def)

lemma frame_trans: "frame s s1 \<Longrightarrow> frame s1 s2 \<Longrightarrow> frame s s2"
  by (auto simp: frame_def)

lemma new_dict_frame: "new_dict s d = (s', q) \<Longrightarrow> frame s s'"
  by (auto simp: new_dict_def frame_def)

lemma TimeDistance_init_frame: "TimeDistance_init s f c pp t = (s', l) \<Longrightarrow> frame s s'"
  by (auto simp: TimeDistance_init_def new_dict_def frame_def split: option.splits)

lemma TimeDistance_add_frame: "TimeDistance_add s l p = Inr (s', l') \<Longrightarrow> frame s s'"
  by (auto simp: TimeDistance_add_def TimeDistance_init_def new_dict_def set_item_def Let_def
      frame_def split: if_splits option.splits)

lemma relax_frame:
  "relax cdf cur pp pdt cbdt th st e = Inr st' \<Longrightarrow> frame (st_store st) (st_store st')"
  by (auto simp: relax_def Let_def frame_refl dest: TimeDistance_add_frame
      split: sum.splits if_splits option.splits prod.splits)

lemma relax_all_frame:
  "relax_all cdf cur pp pdt cbdt th es st = Inr st' \<Longrightarrow> frame (st_store st) (st_store st')"
proof (induction es arbitrary: st)
  case Nil
  then show ?case by (simp add: frame_refl)
next
  case (Cons e es)
  from Cons.prems obtain st1 where r: "relax cdf cur pp pdt cbdt th st e = Inr st1"
    and ra: "relax_all cdf cur pp pdt cbdt th es st1 = Inr st'"
    by (auto split: sum.splits)
  from relax_frame[OF r] Cons.IH[OF ra] show ?case by (rule frame_trans)
qed

lemma visit_frame:
  "visit cdf g start T th st = Inr st' \<Longrightarrow> frame (st_store st) (st_store st')"
  by (auto simp: visit_def Let_def split: prod.splits option.splits dest!: relax_all_frame)

lemma main_loop_frame:
  "main_loop cdf g start T th st = Inr st' \<Longrightarrow> frame (st_store st) (st_store st')"
proof (induction cdf g start T th st rule: main_loop.induct)
  case (1 cdf g start T th st)
  show ?case
  proof (cases "st_queue st = []")
    case True
    with "1.prems" show ?thesis by (simp add: main_loop.simps[of _ _ _ _ _ st] frame_refl)
  next
    case False
    with "1.prems" obtain st1 where v: "visit cdf g start T th st = Inr st1"
      and m: "main_loop cdf g start T th st1 = Inr st'"
      by (auto simp: main_loop.simps[of _ _ _ _ _ st] split: sum.splits)
    from visit_frame[OF v] "1.IH"[OF False v m] show ?thesis by (rule frame_trans)
  qed
qed

lemma init_distances_frame: "init_distances s vs t m = (s', ds) \<Longrightarrow> frame s s'"
proof (induction vs arbitrary: s m)
  case Nil
  then show ?case by (simp add: frame_refl)
next
  case (Cons v vs)
  obtain s1 l where i: "TimeDistance_init s True 0 None t = (s1, l)" by (metis prod.exhaust)
  with Cons.prems have r: "init_distances s1 vs t (m(v \<mapsto> l)) = (s', ds)" by simp
  from TimeDistance_init_frame[OF i] Cons.IH[OF r] show ?case by (rule frame_trans)
qed

lemma search_start_frame: "search_start s g e T = Inr st0 \<Longrightarrow> frame s (st_store st0)"
  by (auto simp: search_start_def split: prod.splits option.splits dest: init_distances_frame)

lemma map_option_sum_Pair_eq:
  "map_option (map_sum id (Pair a)) x = Some (Inr (s', r)) \<longleftrightarrow> a = s' \<and> x = Some (Inr r)"
proof (cases x)
  case None
  then show ?thesis by simp
next
  case (Some y)
  then show ?thesis by (cases y) auto
qed

lemma stochastic_dijkstra_InrE:
  assumes "stochastic_dijkstra cdf s g names start endp T th nf = Some (Inr (s', r))"
  obtains start_id end_id st0 st where
    "resolve_stops names start endp nf = Inr (start_id, end_id)"
    "search_start s g end_id T = Inr st0"
    "main_loop cdf g start_id T th st0 = Inr st"
    "build_route g st start_id end_id = Some (Inr r)"
    "s' = st_store st"
proof -
  from assms obtain ids where r: "resolve_stops names start endp nf = Inr ids"
    by (auto simp: stochastic_dijkstra_def split: sum.splits)
  from assms r obtain st0 where s: "search_start s g (snd ids) T = Inr st0"
    by (auto simp: stochastic_dijkstra_def split: sum.splits)
  from assms r s obtain st where m: "main_loop cdf g (fst ids) T th st0 = Inr st"
    by (auto simp: stochastic_dijkstra_def split: sum.splits)
  from assms have "map_option (map_sum id (Pair (st_store st)))
            (build_route g st (fst ids) (snd ids)) = Some (Inr (s', r))"
    using r s m by (simp add: stochastic_dijkstra_def del: map_option_eq_Some)
  then have b: "build_route g st (fst ids) (snd ids) = Some (Inr r)"
    and s': "s' = st_store st"
    unfolding map_option_sum_Pair_eq by simp_all
  from r have "resolve_stops names start endp nf = Inr (fst ids, snd ids)" by simp
  from that[OF this s m b s'] show ?thesis .
qed

lemma stochastic_dijkstra_frame:
  assumes "stochastic_dijkstra cdf s g names start endp T th nf = Some (Inr (s', r))"
  shows "frame s s'"
proof -
  from assms obtain start_id end_id st0 st where
    s: "search_start s g end_id T = Inr st0"
    and m: "main_loop cdf g start_id T th st0 = Inr st"
    and s': "s' = st_store st"
    by (rule stochastic_dijkstra_InrE)
  from frame_trans[OF search_start_frame[OF s] main_loop_frame[OF m]] s' show ?thesis
    by simp
qed

lemma keeps_refl: "keeps n s s"
  by (simp add: keeps_def)

lemma keeps_trans: "keeps n s s1 \<Longrightarrow> keeps n s1 s2 \<Longrightarrow> keeps n s s2"
  by (auto simp: keeps_def)

lemma frame_keeps: "frame s s' \<Longrightarrow> keeps n s s'"
  by (simp add: frame_def keeps_def)

lemma copy_edges_frame: "copy_edges s es = (s', es') \<Longrightarrow> frame s s'"
proof (induction es arbitrary: s s' es')
  case Nil
  then show ?case by (simp add: frame_refl)
next
  case (Cons e es)
  obtain u v k p where e: "e = (u, v, k, p)" by (cases e)
  obtain s1 q where n: "new_dict s (dicts s ! p) = (s1, q)" by (metis prod.exhaust)
  obtain s2 es2 where c: "copy_edges s1 es = (s2, es2)" by (metis prod.exhaust)
  from Cons.prems e n c have "s' = s2" by simp
  with new_dict_frame[OF n] Cons.IH[OF c] show ?case by (auto intro: frame_trans)
qed

lemma copy_graph_keeps:
  assumes "copy_graph s g = (s0, graph)"
  shows "graph = length (graphs s) \<and> keeps (length (graphs s)) s s0"
proof -
  obtain s1 es where c: "copy_edges s (edges (graphs s ! g)) = (s1, es)" by (metis prod.exhaust)
  from copy_edges_frame[OF c] have f: "graphs s1 = graphs s" "prefix (dicts s) (dicts s1)"
    by (simp_all add: frame_def)
  from assms c f show ?thesis
    by (auto simp: copy_graph_def new_graph_def keeps_def)
qed

lemma remove_edge_keeps:
  "remove_edge s graph u v key = Inr s' \<Longrightarrow> n \<le> graph \<Longrightarrow> keeps n s s'"
  by (auto simp: remove_edge_def Let_def keeps_def split: if_splits option.splits)

lemma robust_loop_keeps:
  "robust_loop cdf graph names start endp T th max_iter nr rs = Some (Inr (s', rl)) \<Longrightarrow>
   n \<le> graph \<Longrightarrow> keeps n (rb_store rs) s'"
proof (induction cdf graph names start endp T th max_iter nr rs rule: robust_loop.induct)
  case (1 cdf graph names start endp T th max_iter nr rs)
  note eq = robust_loop.simps[of cdf graph names start endp T th max_iter nr rs]
  show ?case
  proof (cases "rb_i rs < max_iter \<and> int (length (rb_routes_list rs)) < nr")
    case False
    with "1.prems"(1) show ?thesis by (auto simp: eq keeps_refl)
  next
    case True
    obtain u v props where w: "rb_weakest rs = (u, v, props)" by (metis prod.exhaust)
    from "1.prems"(1) True w obtain to_remove where
      f: "find_edge_key (rb_store rs) graph u v props = Inr to_remove"
      by (auto simp: eq split: sum.splits)
    from "1.prems"(1) True w f obtain s1 where
      r: "remove_edge (rb_store rs) graph u v to_remove = Inr s1"
      by (auto simp: eq split: sum.splits)
    from "1.prems"(1) True w f r obtain res where
      d: "stochastic_dijkstra cdf s1 graph names start endp T th True = Some res"
      by (auto simp: eq split: option.splits)
    from "1.prems"(1) True w f r d obtain sr where res: "res = Inr sr"
      by (auto simp: eq split: sum.splits)
    have d': "stochastic_dijkstra cdf s1 graph names start endp T th True
                = Some (Inr (fst sr, snd sr))"
      using d res by simp
    have k1: "keeps n (rb_store rs) s1" by (rule remove_edge_keeps[OF r "1.prems"(2)])
    have k2: "keeps n s1 (fst sr)" by (rule frame_keeps[OF stochastic_dijkstra_frame[OF d']])
    show ?thesis
    proof (cases "snd sr")
      case None
      with "1.prems"(1) True w f r d res have "s' = fst sr"
        by (auto simp: eq)
      with k1 k2 show ?thesis by (auto intro: keeps_trans)
    next
      case (Some new_route)
      from "1.prems"(1) True w f r d res Some obtain pw where
        sp: "success_proba cdf (fst sr) new_route = Inr pw"
        by (auto simp: eq split: sum.splits)
      let ?rs' = "\<lparr>rb_store = fst sr, rb_weakest = snd pw,
                   rb_proba = (if rb_proba rs < fst pw then fst pw else rb_proba rs),
                   rb_route = (if rb_proba rs < fst pw then new_route else rb_route rs),
                   rb_routes_list = (if fst pw \<ge> th then rb_routes_list rs @ [new_route]
                                     else rb_routes_list rs),
                   rb_i = rb_i rs + 1\<rparr>"
      from "1.prems"(1) True w f r d res Some sp have
        rec: "robust_loop cdf graph names start endp T th max_iter nr ?rs' = Some (Inr (s', rl))"
        by (simp add: eq)
      have "keeps n (rb_store ?rs') s'"
        by (rule "1.IH"[OF True w[symmetric] _ f r d res Some sp rec "1.prems"(2)]) simp
      then have "keeps n (fst sr) s'" by simp
      with k1 k2 show ?thesis by (auto intro: keeps_trans)
    qed
  qed
qed

lemma robust_keeps:
  assumes "robust cdf s g names start endp T th max_iter nr = Some (Inr (s', rl))"
  shows "keeps (length (graphs s)) s s'"
proof -
  obtain s0 graph where c: "copy_graph s g = (s0, graph)" by (metis prod.exhaust)
  from copy_graph_keeps[OF c] have gr: "graph = length (graphs s)"
    and k0: "keeps (length (graphs s)) s s0" by simp_all
  from assms c obtain res where
    d: "stochastic_dijkstra cdf s0 g names start endp T th True = Some res"
    by (auto simp: robust_def split: option.splits)
  from assms c d obtain sr where res: "res = Inr sr"
    by (auto simp: robust_def split: sum.splits)
  have d': "stochastic_dijkstra cdf s0 g names start endp T th True = Some (Inr (fst sr, snd sr))"
    using d res by simp
  have k1: "keeps (length (graphs s)) s0 (fst sr)"
    by (rule frame_keeps[OF stochastic_dijkstra_frame[OF d']])
  show ?thesis
  proof (cases "snd sr")
    case None
    with assms c d res have "s' = fst sr" by (auto simp: robust_def)
    with k0 k1 show ?thesis by (auto intro: keeps_trans)
  next
    case (Some route)
    from assms c d res Some obtain pw where sp: "success_proba cdf (fst sr) route = Inr pw"
      by (auto simp: robust_def split: sum.splits)
    let ?rs = "\<lparr>rb_store = fst sr, rb_weakest = snd pw, rb_proba = fst pw, rb_route = route,
                 rb_routes_list = (if fst pw \<ge> th then [route] else []), rb_i = 1\<rparr>"
    from assms c d res Some sp obtain x where
      rl: "robust_loop cdf graph names start endp T th max_iter nr ?rs = Some x"
      and x: "map_sum id (\<lambda>(s', routes_list). (s', Some routes_list)) x = Inr (s', rl)"
      by (auto simp: robust_def)
    from x obtain rl' where "x = Inr (s', rl')" by (cases x) auto
    with rl have "robust_loop cdf graph names start endp T th max_iter nr ?rs = Some (Inr (s', rl'))"
      by simp
    from robust_loop_keeps[OF this, of "length (graphs s)"] gr
    have "keeps (length (graphs s)) (fst sr) s'" by simp
    with k0 k1 show ?thesis by (auto intro: keeps_trans)
  qed
qed

text \<open>
  C8: a relaxation and a whole search leave every graph object and every dictionary that
  existed before the call unchanged (a walking edge is rewritten on a fresh copy); the
  robust planner leaves every graph object that existed before the call, in particular the
  planner's own, and every such dictionary unchanged: it removes edges from the copy only.
\<close>

theorem search_and_robust_frame:
  "(TimeDistance_add s l props = Inr (s1, l1) \<longrightarrow>
      graphs s1 = graphs s \<and> take (length (dicts s)) (dicts s1) = dicts s)
   \<and> (stochastic_dijkstra cdf s g names start endp T th nf = Some (Inr (s', r)) \<longrightarrow>
        graphs s' = graphs s \<and> take (length (dicts s)) (dicts s') = dicts s)
   \<and> (robust cdf s g names start endp T th max_iter nr = Some (Inr (s'', rl)) \<longrightarrow>
        take (length (graphs s)) (graphs s'') = graphs s
        \<and> take (length (dicts s)) (dicts s'') = dicts s)"
proof (intro conjI impI)
  assume a: "TimeDistance_add s l props = Inr (s1, l1)"
  from TimeDistance_add_frame[OF a] show "graphs s1 = graphs s"
    and "take (length (dicts s)) (dicts s1) = dicts s"
    by (auto simp: frame_def prefix_def)
next
  assume a: "stochastic_dijkstra cdf s g names start endp T th nf = Some (Inr (s', r))"
  from stochastic_dijkstra_frame[OF a] show "graphs s' = graphs s"
    and "take (length (dicts s)) (dicts s') = dicts s"
    by (auto simp: frame_def prefix_def)
next
  assume a: "robust cdf s g names start endp T th max_iter nr = Some (Inr (s'', rl))"
  from robust_keeps[OF a] show "take (length (graphs s)) (graphs s'') = graphs s"
    and "take (length (dicts s)) (dicts s'') = dicts s"
    by (auto simp: keeps_def prefix_def)
qed

theorem search_and_robust_frame_witness:
  "\<exists>s1 l1 s' r s'' rl.
     TimeDistance_add example_store \<lparr>first = False, cum_time = 600, prev_props = 2\<rparr> 1
       = Inr (s1, l1)
     \<and> take (length (dicts example_store)) (dicts s1) = dicts example_store
     \<and> stochastic_dijkstra step_cdf example_store 0 example_names ''A'' ''C'' 30000 (4 / 5) False
         = Some (Inr (s', Some r))
     \<and> graphs s' = graphs example_store
     \<and> take (length (dicts example_store)) (dicts s') = dicts example_store
     \<and> robust step_cdf example_store 0 example_names ''Aarau'' ''Chur'' 30000 (4 / 5) 10 2
         = Some (Inr (s'', Some rl))
     \<and> take (length (graphs example_store)) (graphs s'') = graphs example_store
     \<and> take (length (dicts example_store)) (dicts s'') = dicts example_store"
proof -
  have "\<exists>s1 l1. TimeDistance_add example_store
          \<lparr>first = False, cum_time = 600, prev_props = 2\<rparr> 1 = Inr (s1, l1)"
    by (intro exI) code_simp
  then obtain s1 l1 where a: "TimeDistance_add example_store
          \<lparr>first = False, cum_time = 600, prev_props = 2\<rparr> 1 = Inr (s1, l1)"
    by blast
  have "\<exists>s' r. stochastic_dijkstra step_cdf example_store 0 example_names ''A'' ''C'' 30000
          (4 / 5) False = Some (Inr (s', Some r))"
    by (intro exI) code_simp
  then obtain s' r where b: "stochastic_dijkstra step_cdf example_store 0 example_names
          ''A'' ''C'' 30000 (4 / 5) False = Some (Inr (s', Some r))"
    by blast
  have "\<exists>s'' rl. robust step_cdf example_store 0 example_names ''Aarau'' ''Chur'' 30000
          (4 / 5) 10 2 = Some (Inr (s'', Some rl))"
    by (intro exI) code_simp
  then obtain s'' rl where c: "robust step_cdf example_store 0 example_names
          ''Aarau'' ''Chur'' 30000 (4 / 5) 10 2 = Some (Inr (s'', Some rl))"
    by blast
  from a b c
    search_and_robust_frame [of example_store "\<lparr>first = False, cum_time = 600, prev_props = 2\<rparr>"
      1 s1 l1 step_cdf 0 example_names "''A''" "''C''" 30000 "4 / 5" False s' "Some r"]
    search_and_robust_frame [of example_store "\<lparr>first = False, cum_time = 600, prev_props = 2\<rparr>"
      1 s1 l1 step_cdf 0 example_names "''Aarau''" "''Chur''" 30000 "4 / 5" True s' "Some r"
      10 2 s'' "Some rl"]
  show ?thesis by blast
qed

subsection \<open>Invariant of the search\<close>

lemma prefix_nth: "prefix xs ys \<Longrightarrow> i < length xs \<Longrightarrow> ys ! i = xs ! i"
  by (auto simp: prefix_def nth_append)

lemma frame_nth: "frame s s' \<Longrightarrow> a < length (dicts s) \<Longrightarrow> dicts s' ! a = dicts s ! a"
  by (simp add: frame_def prefix_nth)

lemma frame_length: "frame s s' \<Longrightarrow> length (dicts s) \<le> length (dicts s')"
  by (simp add: frame_def prefix_length_le)

lemma TimeDistance_add_InrD:
  "TimeDistance_add s l e = Inr (s', l') \<Longrightarrow> \<exists>tt. travel_time (dicts s ! e) = Some tt"
  by (auto simp: TimeDistance_add_def new_dict_def Let_def split: if_splits option.splits)

lemma TimeDistance_add_label:
  assumes a: "TimeDistance_add s l e = Inr (s', l')"
    and pp: "prev_props l < length (dicts s)"
    and e: "e < length (dicts s)"
  shows "prev_props l' < length (dicts s')"
    and "ttype (dicts s' ! prev_props l') = ttype (dicts s ! e)"
    and "ttype (dicts s ! e) = ''Foot''
         \<or> travel_time (dicts s ! e) = Some (arr_time (dicts s ! e) - dep_time (dicts s ! e))
         \<Longrightarrow> cum_time l' + dep_time (dicts s' ! prev_props l')
             = cum_time l + dep_time (dicts s ! prev_props l)"
proof -
  from TimeDistance_add_InrD[OF a] obtain tt where tt: "travel_time (dicts s ! e) = Some tt"
    by blast
  from TimeDistance_add_result[OF tt pp, of ] a have
    l': "l' = \<lparr>first = first l,
               cum_time = cum_time l + dep_time (dicts s ! prev_props l)
                          - (if ttype (dicts s ! e) = ''Foot''
                             then dep_time (dicts s ! prev_props l)
                             else arr_time (dicts s ! e)) + tt,
               prev_props = (if ttype (dicts s ! e) = ''Foot'' then length (dicts s) else e)\<rparr>"
    and d: "dicts s' =
             (if ttype (dicts s ! e) = ''Foot''
              then dicts s @ [(dicts s ! e)\<lparr>dep_time := dep_time (dicts s ! prev_props l) - tt,
                                          arr_time := dep_time (dicts s ! prev_props l)\<rparr>]
              else dicts s)"
    by auto
  show "prev_props l' < length (dicts s')" using l' d e by simp
  show "ttype (dicts s' ! prev_props l') = ttype (dicts s ! e)" using l' d by simp
  show "cum_time l' + dep_time (dicts s' ! prev_props l')
             = cum_time l + dep_time (dicts s ! prev_props l)"
    if "ttype (dicts s ! e) = ''Foot''
         \<or> travel_time (dicts s ! e) = Some (arr_time (dicts s ! e) - dep_time (dicts s ! e))"
    using that l' d tt by auto
qed

lemma search_inv_frame:
  assumes inv: "search_inv s g T st" and f: "frame (st_store st) s'"
  shows "search_inv s g T (st\<lparr>st_store := s'\<rparr>)"
proof -
  from inv have f0: "frame s (st_store st)" by (simp add: search_inv_def)
  have keep: "dicts s' ! prev_props l = dicts (st_store st) ! prev_props l
              \<and> prev_props l < length (dicts s')"
    if "st_distances st v = Some l" for v l
  proof -
    from inv that have "prev_props l < length (dicts (st_store st))"
      by (auto simp: search_inv_def)
    with frame_nth[OF f] frame_length[OF f] show ?thesis by simp
  qed
  from inv keep frame_trans[OF f0 f] show ?thesis
    by (simp add: search_inv_def) metis
qed

lemma relax_inv:
  assumes valid: "valid_graph s g"
    and inv: "search_inv s g T st"
    and edge: "(u, v, k, p) \<in> set (edges (graphs s ! g))"
    and r: "relax cdf cur pp pdt cbdt th st (u, v, p) = Inr st'"
  shows "search_inv s g T st'"
proof -
  from inv have f0: "frame s (st_store st)" by (simp add: search_inv_def)
  from valid edge have p0: "p < length (dicts s)" by (auto simp: valid_graph_def)
  with frame_length[OF f0] have p: "p < length (dicts (st_store st))" by simp
  from frame_nth[OF f0 p0] have pd: "dicts (st_store st) ! p = dicts s ! p" .
  obtain ok where tf: "time_filter cdf (st_store st) pp pdt cbdt th (u, v, p) = Inr ok"
    using r by (auto simp: relax_def split: sum.splits)
  show ?thesis
  proof (cases ok)
    case False
    with r tf inv show ?thesis by (simp add: relax_def)
  next
    case True
    from r tf True obtain dcur where dc: "st_distances st cur = Some dcur"
      by (auto simp: relax_def split: option.splits)
    from r tf True dc obtain s' nd where
      add: "TimeDistance_add (st_store st) dcur p = Inr (s', nd)"
      by (auto simp: relax_def split: sum.splits)
    from r tf True dc add obtain dn where dn: "st_distances st v = Some dn"
      by (auto simp: relax_def split: option.splits)
    from inv dc have ppc: "prev_props dcur < length (dicts (st_store st))"
      by (auto simp: search_inv_def)
    note lab = TimeDistance_add_label[OF add ppc p]
    have f1: "frame (st_store st) s'" by (rule TimeDistance_add_frame[OF add])
    have inv1: "search_inv s g T (st\<lparr>st_store := s'\<rparr>)" by (rule search_inv_frame[OF inv f1])
    show ?thesis
    proof (cases "lt nd dn")
      case False
      with r tf True dc add dn have "st' = st\<lparr>st_store := s'\<rparr>"
        by (simp add: relax_def)
      with inv1 show ?thesis by simp
    next
      case lt: True
      define st1 where "st1 = st\<lparr>st_store := s',
                                 st_distances := (st_distances st)(v \<mapsto> updated nd),
                                 st_prev := (st_prev st)(v \<mapsto> cur)\<rparr>"
      have sched: "cum_time (updated nd) + dep_time (dicts s' ! prev_props (updated nd)) = T"
        if sc: "scheduled s g"
      proof -
        from sc edge pd have "ttype (dicts (st_store st) ! p) = ''Foot''
           \<or> travel_time (dicts (st_store st) ! p)
               = Some (arr_time (dicts (st_store st) ! p) - dep_time (dicts (st_store st) ! p))"
          by (auto simp: scheduled_def)
        from lab(3)[OF this] inv sc dc show ?thesis
          by (auto simp: search_inv_def updated_def)
      qed
      have typed: "spec_penalty (ttype (dicts s' ! prev_props (updated nd))) \<noteq> None"
        if ty: "typed_graph s g"
        using ty edge pd lab(2) by (auto simp: typed_graph_def updated_def)
      have inv2: "search_inv s g T st1"
        using inv1 sched typed lab(1)
        unfolding search_inv_def st1_def
        by (auto simp: updated_def)
      from r tf True dc add dn lt
      have "st' = st1 \<or> st' = st1\<lparr>st_visited := insert v (st_visited st1),
                                    st_queue := st_queue st1 @ [(updated nd, v)]\<rparr>"
        by (auto simp: relax_def st1_def Let_def split: if_splits)
      with inv2 show ?thesis by (auto simp: search_inv_def)
    qed
  qed
qed

lemma relax_all_inv:
  assumes valid: "valid_graph s g"
    and r: "relax_all cdf cur pp pdt cbdt th es st = Inr st'"
    and inv: "search_inv s g T st"
    and es: "\<forall>(u, v, p) \<in> set es. \<exists>k. (u, v, k, p) \<in> set (edges (graphs s ! g))"
  shows "search_inv s g T st'"
  using r inv es
proof (induction es arbitrary: st)
  case Nil
  then show ?case by simp
next
  case (Cons e es)
  obtain u v p where e: "e = (u, v, p)" by (cases e)
  from Cons.prems(1) obtain st1 where
    r1: "relax cdf cur pp pdt cbdt th st (u, v, p) = Inr st1"
    and ra: "relax_all cdf cur pp pdt cbdt th es st1 = Inr st'"
    by (auto simp: e split: sum.splits)
  from Cons.prems(3) e obtain k where k: "(u, v, k, p) \<in> set (edges (graphs s ! g))" by auto
  have inv1: "search_inv s g T st1" by (rule relax_inv[OF valid Cons.prems(2) k r1])
  from Cons.prems(3) have "\<forall>(u, v, p) \<in> set es. \<exists>k. (u, v, k, p) \<in> set (edges (graphs s ! g))"
    by simp
  from Cons.IH[OF ra inv1 this] show ?case .
qed

lemma out_edges_edges:
  "\<forall>(u, v, p) \<in> set (out_edges gr stop). \<exists>k. (u, v, k, p) \<in> set (edges gr)"
  by (auto simp: out_edges_def)

lemma visit_inv:
  assumes valid: "valid_graph s g"
    and inv: "search_inv s g T st"
    and v: "visit cdf g start T' th st = Inr st'"
  shows "search_inv s g T st'"
proof -
  obtain l cur q' where qg: "queue_get (st_queue st) = ((l, cur), q')"
    by (metis prod.exhaust)
  define st1 where "st1 = st\<lparr>st_queue := q', st_visited := insert cur (st_visited st)\<rparr>"
  from v qg obtain dcur dstart where
    ra: "relax_all cdf cur (prev_props dcur) (previous_dep_time (st_store st1) dcur)
           (ext_minus T' (cost dstart)) th (out_edges (graphs (st_store st1) ! g) cur) st1 = Inr st'"
    by (auto simp: visit_def Let_def st1_def split: option.splits)
  from inv have inv1: "search_inv s g T st1" by (simp add: search_inv_def st1_def)
  from inv have "graphs (st_store st1) = graphs s" by (simp add: search_inv_def frame_def st1_def)
  with out_edges_edges[of "graphs (st_store st1) ! g" cur]
  have "\<forall>(u, v, p) \<in> set (out_edges (graphs (st_store st1) ! g) cur).
          \<exists>k. (u, v, k, p) \<in> set (edges (graphs s ! g))" by simp
  from relax_all_inv[OF valid ra inv1 this] show ?thesis .
qed

lemma main_loop_inv:
  "main_loop cdf g start T' th st = Inr st' \<Longrightarrow> valid_graph s g \<Longrightarrow> search_inv s g T st
   \<Longrightarrow> search_inv s g T st'"
proof (induction cdf g start T' th st rule: main_loop.induct)
  case (1 cdf g start T' th st)
  show ?case
  proof (cases "st_queue st = []")
    case True
    with "1.prems" show ?thesis by (simp add: main_loop.simps[of _ _ _ _ _ st])
  next
    case False
    with "1.prems"(1) obtain st1 where v: "visit cdf g start T' th st = Inr st1"
      and m: "main_loop cdf g start T' th st1 = Inr st'"
      by (auto simp: main_loop.simps[of _ _ _ _ _ st] split: sum.splits)
    from visit_inv[OF "1.prems"(2,3) v] have "search_inv s g T st1" .
    from "1.IH"[OF False v m "1.prems"(2) this] show ?thesis .
  qed
qed

lemma init_distances_labels:
  assumes "init_distances s vs T m = (s', ds)"
    and "\<forall>v l. m v = Some l \<longrightarrow>
           prev_props l < length (dicts s) \<and> cum_time l + dep_time (dicts s ! prev_props l) = T"
  shows "\<forall>v l. ds v = Some l \<longrightarrow>
           prev_props l < length (dicts s') \<and> cum_time l + dep_time (dicts s' ! prev_props l) = T"
  using assms
proof (induction vs arbitrary: s m)
  case Nil
  then show ?case by simp
next
  case (Cons x vs)
  define s1 where "s1 = s\<lparr>dicts := dicts s @ [INIT_PROPS T]\<rparr>"
  define l1 where "l1 = \<lparr>first = True, cum_time = 0, prev_props = length (dicts s)\<rparr>"
  have i: "TimeDistance_init s True 0 None T = (s1, l1)"
    by (simp add: TimeDistance_init_def new_dict_def s1_def l1_def)
  with Cons.prems(1) have r: "init_distances s1 vs T (m(x \<mapsto> l1)) = (s', ds)" by simp
  have "\<forall>v l. (m(x \<mapsto> l1)) v = Some l \<longrightarrow>
           prev_props l < length (dicts s1) \<and> cum_time l + dep_time (dicts s1 ! prev_props l) = T"
  proof (intro allI impI)
    fix v l
    assume a: "(m(x \<mapsto> l1)) v = Some l"
    show "prev_props l < length (dicts s1)
          \<and> cum_time l + dep_time (dicts s1 ! prev_props l) = T"
    proof (cases "v = x")
      case True
      with a have "l = l1" by simp
      then show ?thesis by (simp add: s1_def l1_def INIT_PROPS_def)
    next
      case False
      with a have "m v = Some l" by simp
      with Cons.prems(2) have "prev_props l < length (dicts s)"
        and "cum_time l + dep_time (dicts s ! prev_props l) = T" by blast+
      then show ?thesis by (simp add: s1_def nth_append)
    qed
  qed
  from Cons.IH[OF r this] show ?case .
qed

lemma search_start_inv:
  assumes "search_start s g e T = Inr st0"
  shows "search_inv s g T st0"
proof -
  obtain s1 ds where i: "init_distances s (nodes (graphs s ! g)) T Map.empty = (s1, ds)"
    by (metis prod.exhaust)
  from assms i obtain label where l: "ds e = Some label"
    and st0: "st0 = \<lparr>st_store = s1, st_distances = ds(e \<mapsto> updated label), st_prev = Map.empty,
                     st_visited = {}, st_queue = [(updated label, e)]\<rparr>"
    by (auto simp: search_start_def split: option.splits)
  from init_distances_labels[OF i] have
    labs: "\<forall>v l. ds v = Some l \<longrightarrow>
           prev_props l < length (dicts s1) \<and> cum_time l + dep_time (dicts s1 ! prev_props l) = T"
    by simp
  from init_distances_frame[OF i] labs l show ?thesis
    by (auto simp: search_inv_def st0 updated_def)
qed

lemma route_shape_stop: "route_shape prv ds node label route (Route_append route node label)"
proof -
  have "connections (Route_append route node label) = connections route @ node # []
         \<and> distances (Route_append route node label) = distances route @ label # []
         \<and> length ([] :: ID list) = length ([] :: TimeDistance list)
         \<and> (\<forall>i < length ([] :: TimeDistance list). prv ((node # []) ! i) \<noteq> None
                \<and> ds ((node # []) ! Suc i) = Some ((label # []) ! Suc i))"
    by (simp add: Route_append_def)
  then show ?thesis unfolding route_shape_def by blast
qed

lemma route_shape_step:
  assumes p: "prv node = Some node'" and d: "ds node' = Some label'"
    and rs: "route_shape prv ds node' label' (Route_append route node label) r"
  shows "route_shape prv ds node label route r"
proof -
  from rs obtain ns ls where
    c: "connections r = connections (Route_append route node label) @ node' # ns"
    and l: "distances r = distances (Route_append route node label) @ label' # ls"
    and len: "length ns = length ls"
    and ch: "\<forall>i < length ls. prv ((node' # ns) ! i) \<noteq> None
                \<and> ds ((node' # ns) ! Suc i) = Some ((label' # ls) ! Suc i)"
    unfolding route_shape_def by blast
  have ch': "\<forall>i < length (label' # ls). prv ((node # node' # ns) ! i) \<noteq> None
                \<and> ds ((node # node' # ns) ! Suc i) = Some ((label # label' # ls) ! Suc i)"
  proof (intro allI impI)
    fix i assume i: "i < length (label' # ls)"
    show "prv ((node # node' # ns) ! i) \<noteq> None
                \<and> ds ((node # node' # ns) ! Suc i) = Some ((label # label' # ls) ! Suc i)"
    proof (cases i)
      case 0
      with p d show ?thesis by simp
    next
      case (Suc j)
      with i ch show ?thesis by simp
    qed
  qed
  from c l len have "connections r = connections route @ node # (node' # ns)
         \<and> distances r = distances route @ label # (label' # ls)
         \<and> length (node' # ns) = length (label' # ls)"
    by (simp add: Route_append_def)
  with ch' show ?thesis unfolding route_shape_def by blast
qed

lemma build_route_loop_shape:
  assumes "build_route_loop prv ds endp node label route = Some y"
  shows "\<forall>r. y = Inr r \<longrightarrow> route_shape prv ds node label route r"
proof (rule build_route_loop.raw_induct
         [where P = "\<lambda>prv ds endp node label route y.
                       \<forall>r. y = Inr r \<longrightarrow> route_shape prv ds node label route r"])
  fix loop :: "(ID \<rightharpoonup> ID) \<Rightarrow> (ID \<rightharpoonup> TimeDistance) \<Rightarrow> ID \<Rightarrow> ID \<Rightarrow> TimeDistance \<Rightarrow> Route
               \<Rightarrow> (error + Route) option"
    and prv ds endp node label route y
  assume ih: "\<And>prv ds endp node label route y.
           loop prv ds endp node label route = Some y \<Longrightarrow>
           \<forall>r. y = Inr r \<longrightarrow> route_shape prv ds node label route r"
    and body: "(if node \<noteq> endp
      then case prv node of None \<Rightarrow> Some (Inl (KeyError ''prev'' node))
           | Some node' \<Rightarrow>
               case ds node' of
               None \<Rightarrow> Some (Inl (KeyError ''distances'' node'))
               | Some label' \<Rightarrow>
                   loop prv ds endp node' label' (Route_append route node label)
      else Some (Inr (Route_append route node label))) = Some y"
  show "\<forall>r. y = Inr r \<longrightarrow> route_shape prv ds node label route r"
  proof (cases "node = endp")
    case True
    with body have "y = Inr (Route_append route node label)" by simp
    then show ?thesis by (simp add: route_shape_stop)
  next
    case False
    show ?thesis
    proof (cases "prv node")
      case None
      with False body show ?thesis by auto
    next
      case (Some node')
      note p = this
      show ?thesis
      proof (cases "ds node'")
        case None
        with False p body show ?thesis by auto
      next
        case (Some label')
        note d = this
        from False p d body have
          rec: "loop prv ds endp node' label' (Route_append route node label) = Some y" by simp
        from ih[OF rec]
          route_shape_step[of prv node node' ds label' route label, OF p d]
        show ?thesis by blast
      qed
    qed
  qed
next
  show "build_route_loop prv ds endp node label route = Some y" by (rule assms)
qed

lemma build_route_shape:
  assumes "build_route g st start endp = Some (Inr (Some r))"
  shows "\<exists>label ns ls. st_distances st start = Some label
         \<and> connections r = start # ns \<and> distances r = label # ls \<and> length ns = length ls
         \<and> (\<forall>i < length ls. st_prev st ((start # ns) ! i) \<noteq> None)
         \<and> (\<forall>i \<le> length ls. st_distances st ((start # ns) ! i) = Some ((label # ls) ! i))"
proof -
  from assms have pr: "st_prev st start \<noteq> None"
    by (auto simp: build_route_def split: if_splits)
  with assms obtain label where l: "st_distances st start = Some label"
    by (auto simp: build_route_def split: option.splits)
  from assms pr l obtain y where
    b: "build_route_loop (st_prev st) (st_distances st) endp start label (Route_init g) = Some y"
    and y: "map_sum id Some y = Inr (Some r)"
    by (auto simp: build_route_def)
  from y have "y = Inr r" by (cases y) auto
  from build_route_loop_shape[OF b] this
  have "route_shape (st_prev st) (st_distances st) start label (Route_init g) r" by blast
  then obtain ns ls where
    c: "connections r = start # ns" and d: "distances r = label # ls"
    and len: "length ns = length ls"
    and ch: "\<forall>i < length ls. st_prev st ((start # ns) ! i) \<noteq> None
                \<and> st_distances st ((start # ns) ! Suc i) = Some ((label # ls) ! Suc i)"
    by (auto simp: route_shape_def Route_init_def)
  have "\<forall>i \<le> length ls. st_distances st ((start # ns) ! i) = Some ((label # ls) ! i)"
  proof (intro allI impI)
    fix i assume i: "i \<le> length ls"
    show "st_distances st ((start # ns) ! i) = Some ((label # ls) ! i)"
    proof (cases i)
      case 0
      with l show ?thesis by simp
    next
      case (Suc j)
      with i ch show ?thesis by simp
    qed
  qed
  with l c d len ch show ?thesis by blast
qed

text \<open>
  C6: every route returned by the search, on a graph whose scheduled edges satisfy
  \<open>travel_time = arr_time - dep_time\<close>, has
  \<open>arr_time() = distances[0].cum_time + distances[0].prev_props.dep_time\<close> at most
  \<open>arr_time_target\<close>: each relaxation preserves \<open>cum_time + prev_props.dep_time\<close>, which
  starts at the target time, so the bound holds with equality (the sign of a walking
  edge's \<open>travel_time\<close> plays no part).
\<close>

theorem arrival_bound:
  assumes "stochastic_dijkstra cdf s g names start endp arr_time_target threshold names_format
             = Some (Inr (s', Some r))"
    and "valid_graph s g"
    and "scheduled s g"
  shows "\<exists>a. Route_arr_time s' r = Inr a
           \<and> a = cum_time (distances r ! 0) + dep_time (dicts s' ! prev_props (distances r ! 0))
           \<and> a \<le> arr_time_target"
proof -
  from assms(1) obtain start_id end_id st0 st where
    s: "search_start s g end_id arr_time_target = Inr st0"
    and m: "main_loop cdf g start_id arr_time_target threshold st0 = Inr st"
    and b: "build_route g st start_id end_id = Some (Inr (Some r))"
    and s': "s' = st_store st"
    by (rule stochastic_dijkstra_InrE)
  have inv: "search_inv s g arr_time_target st"
    by (rule main_loop_inv[OF m assms(2) search_start_inv[OF s]])
  from build_route_shape[OF b] obtain label ns ls where
    l: "st_distances st start_id = Some label"
    and c: "connections r = start_id # ns" and d: "distances r = label # ls"
    by blast
  from inv assms(3) l have
    "cum_time label + dep_time (dicts (st_store st) ! prev_props label) = arr_time_target"
    by (auto simp: search_inv_def)
  with c d s' show ?thesis
    by (simp add: Route_arr_time_def Route_travel_time_def)
qed

theorem arrival_bound_witness:
  "valid_graph example_store 0 \<and> scheduled example_store 0
   \<and> (\<exists>s' r a. stochastic_dijkstra step_cdf example_store 0 example_names ''Aarau'' ''Chur''
                   30000 (4 / 5) True = Some (Inr (s', Some r))
        \<and> Route_arr_time s' r = Inr a \<and> a \<le> 30000)"
proof -
  have v: "valid_graph example_store 0" by code_simp
  have sc: "scheduled example_store 0" by code_simp
  have "\<exists>s' r. stochastic_dijkstra step_cdf example_store 0 example_names ''Aarau'' ''Chur''
                   30000 (4 / 5) True = Some (Inr (s', Some r))"
    by (intro exI) code_simp
  then obtain s' r where d: "stochastic_dijkstra step_cdf example_store 0 example_names
        ''Aarau'' ''Chur'' 30000 (4 / 5) True = Some (Inr (s', Some r))" by blast
  from arrival_bound[OF d v sc] v sc d show ?thesis by blast
qed

end
